theory Spec2Isabelle
  imports Main "HOL-Library.AList" "HOL-Library.Product_Lexorder" "HOL-Library.Sublist"
begin

section \<open>Campground availability: the model\<close>

text \<open>
  The program is one request handler, \<open>get_availability\<close> in \<open>main.py\<close>. It expands a
  date range into night keys, asks an upstream service for each calendar month the range
  touches, merges what the months say about each campsite and sorts the sites into fully
  and partially available ones, once per requested campground name.

  Python values are modelled as follows. Strings are \<open>string\<close> (lists of 8-bit
  characters, so the text is taken to be ASCII). Dictionaries whose iteration order the
  handler relies on (\<open>results\<close>, \<open>all_avail_data\<close>, \<open>all_sites\<close>, the \<open>campsites\<close>
  object of a month) are association lists; a store is \<open>AList.update\<close>, which replaces
  the value of a present key in place and appends an absent key, as a Python \<open>dict\<close> does.
  The \<open>availabilities\<close> object of a site is only ever read by key and extended with
  \<open>update\<close>, so it is a map. A \<open>datetime\<close> is its calendar date: every \<open>datetime\<close> of
  the handler is at midnight. Exceptions that leave the handler are values of \<open>error\<close>.
\<close>

subsection \<open>Strings\<close>

definition lower_char :: "char \<Rightarrow> char" where
  "lower_char c =
     (case map_of (zip ''ABCDEFGHIJKLMNOPQRSTUVWXYZ'' ''abcdefghijklmnopqrstuvwxyz'') c of
        None \<Rightarrow> c | Some l \<Rightarrow> l)"

text \<open>\<open>str.lower()\<close> on ASCII text.\<close>

definition lower :: "string \<Rightarrow> string" where
  "lower s = map lower_char s"

text \<open>\<open>s.startswith(p)\<close>.\<close>

definition startswith :: "string \<Rightarrow> string \<Rightarrow> bool" where
  "startswith s p = (take (length p) s = p)"

definition digit_char :: "int \<Rightarrow> char" where
  "digit_char d = ''0123456789'' ! nat d"

definition digit_val :: "char \<Rightarrow> int option" where
  "digit_val c =
     map_of [(CHR ''0'', 0), (CHR ''1'', 1), (CHR ''2'', 2), (CHR ''3'', 3), (CHR ''4'', 4),
             (CHR ''5'', 5), (CHR ''6'', 6), (CHR ''7'', 7), (CHR ''8'', 8), (CHR ''9'', 9)] c"

text \<open>The decimal numeral of a natural number, as an f-string prints an \<open>int\<close>.\<close>

fun str_nat :: "nat \<Rightarrow> string" where
  "str_nat n = (if n < 10 then [digit_char (int n)]
                else str_nat (n div 10) @ [digit_char (int (n mod 10))])"

declare str_nat.simps [simp del]

subsection \<open>The calendar of the \<open>datetime\<close> module\<close>

text \<open>
  The date arithmetic of the library, after its reference implementation: the proleptic
  Gregorian ordinal of a date (1 is 0001-01-01) and its inverse.
\<close>

datatype error = ValueError | OverflowError

record datetime =
  year :: int
  month :: int
  day :: int

definition MINYEAR :: int where "MINYEAR = 1"
definition MAXYEAR :: int where "MAXYEAR = 9999"
definition MAXORDINAL :: int where "MAXORDINAL = 3652059"

definition DAYS_IN_MONTH :: "int list" where
  "DAYS_IN_MONTH = [-1, 31, 28, 31, 30, 31, 30, 31, 31, 30, 31, 30, 31]"

definition DAYS_BEFORE_MONTH :: "int list" where
  "DAYS_BEFORE_MONTH = [-1, 0, 31, 59, 90, 120, 151, 181, 212, 243, 273, 304, 334]"

definition is_leap :: "int \<Rightarrow> bool" where
  "is_leap y = (y mod 4 = 0 \<and> (y mod 100 \<noteq> 0 \<or> y mod 400 = 0))"

definition days_before_year :: "int \<Rightarrow> int" where
  "days_before_year y = (let y1 = y - 1 in y1 * 365 + y1 div 4 - y1 div 100 + y1 div 400)"

definition days_in_month :: "int \<Rightarrow> int \<Rightarrow> int" where
  "days_in_month y m = (if m = 2 \<and> is_leap y then 29 else DAYS_IN_MONTH ! nat m)"

definition days_before_month :: "int \<Rightarrow> int \<Rightarrow> int" where
  "days_before_month y m = DAYS_BEFORE_MONTH ! nat m + (if m > 2 \<and> is_leap y then 1 else 0)"

definition ymd2ord :: "int \<Rightarrow> int \<Rightarrow> int \<Rightarrow> int" where
  "ymd2ord y m d = days_before_year y + days_before_month y m + d"

definition DI400Y :: int where "DI400Y = days_before_year 401"
definition DI100Y :: int where "DI100Y = days_before_year 101"
definition DI4Y :: int where "DI4Y = days_before_year 5"

definition ord2ymd :: "int \<Rightarrow> int \<times> int \<times> int" where
  "ord2ymd n0 =
    (let n = n0 - 1;
         n400 = n div DI400Y; n = n mod DI400Y;
         y = n400 * 400 + 1;
         n100 = n div DI100Y; n = n mod DI100Y;
         n4 = n div DI4Y; n = n mod DI4Y;
         n1 = n div 365; n = n mod 365;
         y = y + (n100 * 100 + n4 * 4 + n1)
     in if n1 = 4 \<or> n100 = 4 then (y - 1, 12, 31)
        else
          let leapyear = (n1 = 3 \<and> (n4 \<noteq> 24 \<or> n100 = 3));
              m = (n + 50) div 32;
              preceding = DAYS_BEFORE_MONTH ! nat m + (if m > 2 \<and> leapyear then 1 else 0)
          in if preceding > n
             then (let m = m - 1;
                       preceding = preceding - (DAYS_IN_MONTH ! nat m + (if m = 2 \<and> leapyear then 1 else 0))
                   in (y, m, n - preceding + 1))
             else (y, m, n - preceding + 1))"

text \<open>Month and day as the constructor of a date accepts them.\<close>

definition valid_md :: "int \<Rightarrow> int \<Rightarrow> int \<Rightarrow> bool" where
  "valid_md y m d = (1 \<le> m \<and> m \<le> 12 \<and> 1 \<le> d \<and> d \<le> days_in_month y m)"

text \<open>The dates a \<open>datetime\<close> object can hold.\<close>

definition valid_datetime :: "datetime \<Rightarrow> bool" where
  "valid_datetime dt =
     (MINYEAR \<le> year dt \<and> year dt \<le> MAXYEAR \<and> valid_md (year dt) (month dt) (day dt))"

definition toordinal :: "datetime \<Rightarrow> int" where
  "toordinal dt = ymd2ord (year dt) (month dt) (day dt)"

definition fromordinal :: "int \<Rightarrow> datetime" where
  "fromordinal n = (case ord2ymd n of (y, m, d) \<Rightarrow> \<lparr>year = y, month = m, day = d\<rparr>)"

text \<open>\<open>(a - b).days\<close> for two midnights.\<close>

definition sub_days :: "datetime \<Rightarrow> datetime \<Rightarrow> int" where
  "sub_days a b = toordinal a - toordinal b"

text \<open>\<open>dt + timedelta(n)\<close>, which raises \<open>OverflowError\<close> outside the calendar.\<close>

definition add_days :: "datetime \<Rightarrow> int \<Rightarrow> error + datetime" where
  "add_days dt n =
     (let ordinal = toordinal dt + n
      in if 0 < ordinal \<and> ordinal \<le> MAXORDINAL then Inr (fromordinal ordinal)
         else Inl OverflowError)"

text \<open>The order of \<open>datetime\<close> objects compares year, month and day in turn.\<close>

definition date_key :: "datetime \<Rightarrow> int \<times> int \<times> int" where
  "date_key dt = (year dt, month dt, day dt)"

subsection \<open>Printing and reading dates\<close>

definition pad2 :: "int \<Rightarrow> string" where
  "pad2 n = [digit_char (n div 10), digit_char (n mod 10)]"

definition pad4 :: "int \<Rightarrow> string" where
  "pad4 n = [digit_char (n div 1000), digit_char (n div 100 mod 10),
             digit_char (n div 10 mod 10), digit_char (n mod 10)]"

text \<open>
  \<open>strftime("%Y-%m-%d")\<close> with \<open>%Y\<close> as the library documents it, the year in four
  digits (0001 to 9999), which is also the only form \<open>strptime\<close> reads back. A C library
  that prints the years before 1000 without the leading zeros is outside this model.
\<close>

definition strftime_ymd :: "datetime \<Rightarrow> string" where
  "strftime_ymd dt = pad4 (year dt) @ ''-'' @ pad2 (month dt) @ ''-'' @ pad2 (day dt)"

text \<open>The night key, \<open>strftime("%Y-%m-%dT00:00:00Z")\<close>.\<close>

definition strftime_night :: "datetime \<Rightarrow> string" where
  "strftime_night dt = strftime_ymd dt @ ''T00:00:00Z''"

text \<open>The month parameter of the upstream call, \<open>strftime("%Y-%m-%dT00:00:00.000Z")\<close>.\<close>

definition strftime_month :: "datetime \<Rightarrow> string" where
  "strftime_month dt = strftime_ymd dt @ ''T00:00:00.000Z''"

text \<open>
  \<open>strptime(s, "%Y-%m-%d")\<close> matches \<open>(\d\d\d\d)-(1[0-2]|0[1-9]|[1-9])-(3[0-1]|[1-2]\d|0[1-9]|[1-9]| [1-9])\<close>
  at the start of \<open>s\<close>, wants nothing left over, and then builds the date, which checks
  the year and the day of the month. The alternatives are tried in order; no input makes
  a later alternative succeed where an earlier one matched and the rest then failed, so
  the first alternative that matches decides.
\<close>

definition strptime_month :: "string \<Rightarrow> (int \<times> string) option" where
  "strptime_month s =
     (case s of
        [] \<Rightarrow> None
      | c1 # r1 \<Rightarrow>
          (let two = (case r1 of
                        [] \<Rightarrow> None
                      | c2 # r2 \<Rightarrow>
                          (case (digit_val c1, digit_val c2) of
                             (Some v1, Some v2) \<Rightarrow>
                               if v1 = 1 \<and> v2 \<le> 2 then Some (10 + v2, r2)
                               else if v1 = 0 \<and> 1 \<le> v2 then Some (v2, r2)
                               else None
                           | _ \<Rightarrow> None));
               one = (case digit_val c1 of
                        Some v1 \<Rightarrow> if 1 \<le> v1 then Some (v1, r1) else None
                      | None \<Rightarrow> None)
           in case two of Some res \<Rightarrow> Some res | None \<Rightarrow> one))"

definition strptime_day :: "string \<Rightarrow> (int \<times> string) option" where
  "strptime_day s =
     (case s of
        [] \<Rightarrow> None
      | c1 # r1 \<Rightarrow>
          (let two = (case r1 of
                        [] \<Rightarrow> None
                      | c2 # r2 \<Rightarrow>
                          (case (digit_val c1, digit_val c2) of
                             (Some v1, Some v2) \<Rightarrow>
                               if v1 = 3 \<and> v2 \<le> 1 then Some (30 + v2, r2)
                               else if v1 = 1 \<or> v1 = 2 then Some (10 * v1 + v2, r2)
                               else if v1 = 0 \<and> 1 \<le> v2 then Some (v2, r2)
                               else None
                           | _ \<Rightarrow> None));
               one = (case digit_val c1 of
                        Some v1 \<Rightarrow> if 1 \<le> v1 then Some (v1, r1) else None
                      | None \<Rightarrow> None);
               blank = (case r1 of
                          [] \<Rightarrow> None
                        | c2 # r2 \<Rightarrow>
                            (case digit_val c2 of
                               Some v2 \<Rightarrow>
                                 if c1 = CHR '' '' \<and> 1 \<le> v2 then Some (v2, r2) else None
                             | None \<Rightarrow> None))
           in case two of
                Some res \<Rightarrow> Some res
              | None \<Rightarrow> (case one of Some res \<Rightarrow> Some res | None \<Rightarrow> blank)))"

definition strptime :: "string \<Rightarrow> error + datetime" where
  "strptime s =
     (case s of
        c1 # c2 # c3 # c4 # sep # r \<Rightarrow>
          (case (digit_val c1, digit_val c2, digit_val c3, digit_val c4) of
             (Some v1, Some v2, Some v3, Some v4) \<Rightarrow>
               if sep \<noteq> CHR ''-'' then Inl ValueError
               else
                 (case strptime_month r of
                    Some (m, sep2 # r2) \<Rightarrow>
                      if sep2 \<noteq> CHR ''-'' then Inl ValueError
                      else
                        (case strptime_day r2 of
                           Some (d, []) \<Rightarrow>
                             (let y = 1000 * v1 + 100 * v2 + 10 * v3 + v4
                              in if MINYEAR \<le> y \<and> d \<le> days_in_month y m
                                 then Inr \<lparr>year = y, month = m, day = d\<rparr>
                                 else Inl ValueError)
                         | _ \<Rightarrow> Inl ValueError)
                  | _ \<Rightarrow> Inl ValueError)
           | _ \<Rightarrow> Inl ValueError)
      | _ \<Rightarrow> Inl ValueError)"

text \<open>\<open>d.split("T")[0]\<close>: the text before the first \<open>T\<close>.\<close>

definition split_T_0 :: "string \<Rightarrow> string" where
  "split_T_0 d = takeWhile (\<lambda>c. c \<noteq> CHR ''T'') d"

subsection \<open>The handler\<close>

text \<open>The module's directory of campgrounds, identifier to display name, in source order.\<close>

definition CAMPGROUND_LOOKUP :: "(string \<times> string) list" where
  "CAMPGROUND_LOOKUP =
     [(''232369'', ''Camp Dick''),
      (''232462'', ''Glacier Basin''),
      (''232281'', ''Olive Ridge''),
      (''232368'', ''Peaceful Valley''),
      (''232280'', ''Kelly Dahl''),
      (''232282'', ''Pawnee Campground''),
      (''231862'', ''Stillwater Campground''),
      (''231861'', ''Green Ridge Campground''),
      (''232463'', ''Moraine Park Campground''),
      (''233187'', ''Aspenglen Campground''),
      (''260552'', ''Timber Creek Campground''),
      (''231860'', ''Arapaho Bay Campground'')]"

text \<open>\<open>{v.lower(): k for k, v in CAMPGROUND_LOOKUP.items()}\<close>\<close>

definition name_to_id :: "(string \<times> string) list" where
  "name_to_id = fold (\<lambda>(k, v). AList.update (lower v) k) CAMPGROUND_LOOKUP []"

text \<open>
  One campsite of a month's answer, an object as the upstream contract has it: a display
  name, and the statuses of its nights by night key, all of them strings. Both fields are
  read with \<open>.get\<close> and a default, so either may be absent. A campsite that is no
  object and a status that is no string are outside this type.
\<close>

record site_info =
  site :: "string option"
  availabilities :: "(string \<rightharpoonup> string) option"

text \<open>
  What one upstream call comes to: an exception before the merge begins (no connection, a
  status that \<open>raise_for_status\<close> rejects, a body that is not a JSON object) with its
  text, or the decoded body, whose \<open>campsites\<close> object may be absent and is given by
  its items in order. The upstream is a function of the campground identifier in the URL
  and of the \<open>start_date\<close> parameter.
\<close>

datatype response = Raised string | Body "(string \<times> site_info) list option"

type_synonym upstream = "string \<Rightarrow> string \<Rightarrow> response"

text \<open>The values of the \<open>results\<close> dictionary.\<close>

datatype entry =
    Error_entry string
  | Success_entry string "string list" "string list" "string list"
  | Site_index "(string \<times> string) list"

text \<open>
  What the handler has written so far: \<open>results\<close>, \<open>all_sites\<close>, and the upstream calls
  it has issued, each with its campground identifier and month parameter.
\<close>

record state =
  results :: "(string \<times> entry) list"
  all_sites :: "(string \<times> string) list"
  requests :: "(string \<times> string) list"

definition initial_state :: state where
  "initial_state = \<lparr>results = [], all_sites = [], requests = []\<rparr>"

text \<open>\<open>list(daterange(start, end))\<close>; an exception in the generator ends it.\<close>

fun collect :: "(error + 'a) list \<Rightarrow> error + 'a list" where
  "collect [] = Inr []"
| "collect (x # xs) =
     (case x of
        Inl e \<Rightarrow> Inl e
      | Inr v \<Rightarrow> (case collect xs of Inl e \<Rightarrow> Inl e | Inr vs \<Rightarrow> Inr (v # vs)))"

definition daterange :: "datetime \<Rightarrow> datetime \<Rightarrow> error + string list" where
  "daterange start_date end_date =
     collect (map (\<lambda>n. case add_days start_date (int n) of
                           Inl e \<Rightarrow> Inl e
                         | Inr dt \<Rightarrow> Inr (strftime_night dt))
                  [0..<nat (sub_days end_date start_date + 1)])"

text \<open>
  \<open>sorted(set(strptime(d.split("T")[0], "%Y-%m-%d").replace(day=1) for d in target_dates))\<close>:
  the distinct first days of the months, in ascending order.
\<close>

definition months_of :: "string list \<Rightarrow> error + datetime list" where
  "months_of target_dates =
     (case collect (map (\<lambda>d. strptime (split_T_0 d)) target_dates) of
        Inl e \<Rightarrow> Inl e
      | Inr ds \<Rightarrow> Inr (sort_key date_key (remdups (map (\<lambda>dt. dt\<lparr>day := 1\<rparr>) ds))))"

text \<open>\<open>str(KeyError('availabilities'))\<close>\<close>

definition key_error_text :: string where
  "key_error_text = CHR 0x27 # ''availabilities'' @ [CHR 0x27]"

text \<open>
  The body of the loop over a month's campsites. A site seen for the first time is stored
  as it came; for a site already stored, its stored \<open>availabilities\<close> are subscripted
  (a \<open>KeyError\<close> when the stored site has none) and updated with those of the month.
\<close>

definition merge_site ::
  "string \<times> site_info \<Rightarrow> (string \<times> site_info) list \<Rightarrow> string + (string \<times> site_info) list" where
  "merge_site item all_avail_data =
     (case item of (site_id, info) \<Rightarrow>
        (case map_of all_avail_data site_id of
           None \<Rightarrow> Inr (AList.update site_id info all_avail_data)
         | Some stored \<Rightarrow>
             (case availabilities stored of
                None \<Rightarrow> Inl key_error_text
              | Some av \<Rightarrow>
                  Inr (AList.update site_id
                         (stored\<lparr>availabilities :=
                            Some (av ++ (case availabilities info of None \<Rightarrow> Map.empty | Some m \<Rightarrow> m))\<rparr>)
                         all_avail_data))))"

text \<open>
  The loop itself: an exception leaves it at once, and what it has stored so far stays.
\<close>

fun merge_sites ::
  "(string \<times> site_info) list \<Rightarrow> (string \<times> site_info) list
     \<Rightarrow> (string \<times> site_info) list \<times> string option" where
  "merge_sites [] all_avail_data = (all_avail_data, None)"
| "merge_sites (item # items) all_avail_data =
     (case merge_site item all_avail_data of
        Inl e \<Rightarrow> (all_avail_data, Some e)
      | Inr updated \<Rightarrow> merge_sites items updated)"

definition failed_text :: "string \<Rightarrow> string \<Rightarrow> string" where
  "failed_text month_param cause = ''Failed to fetch month '' @ month_param @ '': '' @ cause"

text \<open>
  One turn of the loop over the months: the call, the merge of its answer and, on an
  exception, the error entry under the campground identifier; then the next month.
\<close>

definition fetch_month ::
  "upstream \<Rightarrow> string \<Rightarrow> datetime \<Rightarrow> (string \<times> site_info) list \<times> state
     \<Rightarrow> (string \<times> site_info) list \<times> state" where
  "fetch_month api campgroundId month_date acc =
     (case acc of (all_avail_data, st) \<Rightarrow>
        (let month_param = strftime_month month_date;
             st1 = st\<lparr>requests := requests st @ [(campgroundId, month_param)]\<rparr>
         in case api campgroundId month_param of
              Raised cause \<Rightarrow>
                (all_avail_data,
                 st1\<lparr>results := AList.update campgroundId
                                   (Error_entry (failed_text month_param cause)) (results st1)\<rparr>)
            | Body campsites \<Rightarrow>
                (case merge_sites (case campsites of None \<Rightarrow> [] | Some items \<Rightarrow> items) all_avail_data of
                   (merged, None) \<Rightarrow> (merged, st1)
                 | (merged, Some cause) \<Rightarrow>
                     (merged,
                      st1\<lparr>results := AList.update campgroundId
                                        (Error_entry (failed_text month_param cause)) (results st1)\<rparr>))))"

definition fetch_months ::
  "upstream \<Rightarrow> string \<Rightarrow> datetime list \<Rightarrow> (string \<times> site_info) list \<times> state
     \<Rightarrow> (string \<times> site_info) list \<times> state" where
  "fetch_months api campgroundId months acc = fold (fetch_month api campgroundId) months acc"

text \<open>\<open>site_data.get("availabilities", {}).get(date, "Missing")\<close>\<close>

definition status_of :: "site_info \<Rightarrow> string \<Rightarrow> string" where
  "status_of site_data date =
     (case availabilities site_data of
        None \<Rightarrow> ''Missing''
      | Some all_avail \<Rightarrow> (case all_avail date of None \<Rightarrow> ''Missing'' | Some status \<Rightarrow> status))"

definition counts_available :: "string \<Rightarrow> bool" where
  "counts_available status = (startswith status ''Available'' \<or> startswith status ''Open'')"

text \<open>
  \<open>sum(1 for date in target_dates if ...)\<close>; \<open>site_status[date]\<close> is the status just
  stored for that date.
\<close>

definition available_nights :: "string list \<Rightarrow> site_info \<Rightarrow> nat" where
  "available_nights target_dates site_data =
     length (filter (\<lambda>date. counts_available (status_of site_data date)) target_dates)"

definition site_name_of :: "string \<Rightarrow> site_info \<Rightarrow> string" where
  "site_name_of site_id site_data =
     (case site site_data of None \<Rightarrow> ''Site '' @ site_id | Some name \<Rightarrow> name)"

definition site_label :: "string \<Rightarrow> nat \<Rightarrow> string" where
  "site_label site_name nights = site_name @ '' ('' @ str_nat nights @ '' nights)''"

text \<open>One turn of the loop over the merged sites.\<close>

definition classify_site ::
  "string list \<Rightarrow> string \<times> site_info \<Rightarrow> string list \<times> string list \<times> (string \<times> string) list
     \<Rightarrow> string list \<times> string list \<times> (string \<times> string) list" where
  "classify_site target_dates item acc =
     (case (item, acc) of ((site_id, site_data), (fully, partially, sites)) \<Rightarrow>
        (let site_name = site_name_of site_id site_data;
             nights = available_nights target_dates site_data;
             sites' = AList.update site_id site_name sites
         in if nights = length target_dates
              then (fully @ [site_label site_name nights], partially, sites')
            else if nights > 0
              then (fully, partially @ [site_label site_name nights], sites')
            else (fully, partially, sites')))"

definition classify_sites ::
  "string list \<Rightarrow> (string \<times> site_info) list \<Rightarrow> (string \<times> string) list
     \<Rightarrow> string list \<times> string list \<times> (string \<times> string) list" where
  "classify_sites target_dates all_avail_data sites =
     fold (classify_site target_dates) all_avail_data ([], [], sites)"

definition campground_name_of :: "string \<Rightarrow> string" where
  "campground_name_of campgroundId =
     (case map_of CAMPGROUND_LOOKUP campgroundId of
        None \<Rightarrow> ''Campground '' @ campgroundId
      | Some name \<Rightarrow> name)"

text \<open>
  \<open>name_to_id.get(name.lower())\<close> followed by \<open>if not campgroundId\<close>, which also
  rejects an empty identifier.
\<close>

definition resolve :: "string \<Rightarrow> string option" where
  "resolve name =
     (case map_of name_to_id (lower name) of
        None \<Rightarrow> None
      | Some campgroundId \<Rightarrow> if campgroundId = [] then None else Some campgroundId)"

text \<open>The body of the loop over the requested names.\<close>

definition process_name :: "upstream \<Rightarrow> string list \<Rightarrow> string \<Rightarrow> state \<Rightarrow> error + state" where
  "process_name api target_dates name st =
     (case resolve name of
        None \<Rightarrow>
          Inr (st\<lparr>results := AList.update name (Error_entry ''Unknown campground name'') (results st)\<rparr>)
      | Some campgroundId \<Rightarrow>
          (case months_of target_dates of
             Inl e \<Rightarrow> Inl e
           | Inr months \<Rightarrow>
               (case fetch_months api campgroundId months ([], st) of
                  (all_avail_data, st1) \<Rightarrow>
                    (case classify_sites target_dates all_avail_data (all_sites st1) of
                       (fully, partially, sites) \<Rightarrow>
                         Inr (st1\<lparr>results :=
                                    AList.update campgroundId
                                      (Success_entry (campground_name_of campgroundId) target_dates
                                         fully partially)
                                      (results st1),
                                  all_sites := sites\<rparr>)))))"

fun process_names :: "upstream \<Rightarrow> string list \<Rightarrow> string list \<Rightarrow> state \<Rightarrow> error + state" where
  "process_names api target_dates [] st = Inr st"
| "process_names api target_dates (name # names) st =
     (case process_name api target_dates name st of
        Inl e \<Rightarrow> Inl e
      | Inr st' \<Rightarrow> process_names api target_dates names st')"

text \<open>
  The handler up to the aggregate it hands to the renderer: the dates are read, the night
  keys listed, the names processed in order, and the site index stored under
  \<open>all_sites\<close>. An \<open>error\<close> is an exception that no handler catches.
\<close>

definition get_availability :: "upstream \<Rightarrow> string list \<Rightarrow> string \<Rightarrow> string \<Rightarrow> error + state" where
  "get_availability api campgroundName startDate endDate =
     (case strptime startDate of
        Inl e \<Rightarrow> Inl e
      | Inr start \<Rightarrow>
          (case strptime endDate of
             Inl e \<Rightarrow> Inl e
           | Inr end_date \<Rightarrow>
               (case daterange start end_date of
                  Inl e \<Rightarrow> Inl e
                | Inr target_dates \<Rightarrow>
                    (case process_names api target_dates campgroundName initial_state of
                       Inl e \<Rightarrow> Inl e
                     | Inr st \<Rightarrow>
                         Inr (st\<lparr>results :=
                                   AList.update ''all_sites'' (Site_index (all_sites st)) (results st)\<rparr>)))))"

subsection \<open>Notions for stating the properties\<close>

text \<open>The campsites a month contributes to the merge: none when its call failed.\<close>

definition month_sites :: "upstream \<Rightarrow> string \<Rightarrow> datetime \<Rightarrow> (string \<times> site_info) list" where
  "month_sites api campgroundId month_date =
     (case api campgroundId (strftime_month month_date) of
        Raised cause \<Rightarrow> []
      | Body None \<Rightarrow> []
      | Body (Some items) \<Rightarrow> items)"





text \<open>The summary label of a merged site for the requested nights.\<close>

definition label_of :: "string list \<Rightarrow> string \<times> site_info \<Rightarrow> string" where
  "label_of target_dates item =
     site_label (site_name_of (fst item) (snd item)) (available_nights target_dates (snd item))"

text \<open>The key of \<open>results\<close> under which a requested name is answered.\<close>

definition key_of :: "string \<Rightarrow> string" where
  "key_of name = (case resolve name of None \<Rightarrow> name | Some campgroundId \<Rightarrow> campgroundId)"

text \<open>
  The entry the handler stores for a requested name once its months are fetched, and the
  upstream calls it issues for the name.
\<close>

definition written_entry :: "upstream \<Rightarrow> string list \<Rightarrow> datetime list \<Rightarrow> string \<Rightarrow> entry" where
  "written_entry api target_dates months name =
     (case resolve name of
        None \<Rightarrow> Error_entry ''Unknown campground name''
      | Some campgroundId \<Rightarrow>
          (let merged = fst (fetch_months api campgroundId months ([], initial_state))
           in Success_entry (campground_name_of campgroundId) target_dates
                (map (label_of target_dates)
                   (filter (\<lambda>item. available_nights target_dates (snd item) = length target_dates) merged))
                (map (label_of target_dates)
                   (filter (\<lambda>item. available_nights target_dates (snd item) \<noteq> length target_dates
                                   \<and> 0 < available_nights target_dates (snd item)) merged))))"

definition requests_for :: "datetime list \<Rightarrow> string \<Rightarrow> (string \<times> string) list" where
  "requests_for months name =
     (case resolve name of
        None \<Rightarrow> []
      | Some campgroundId \<Rightarrow> map (\<lambda>m. (campgroundId, strftime_month m)) months)"

subsection \<open>Two upstreams for the examples\<close>

text \<open>An upstream that is down: every call raises.\<close>

definition upstream_down :: upstream where
  "upstream_down campgroundId month_param = Raised ''connection refused''"

text \<open>
  An upstream that knows Camp Dick in August and September 2025 and fails for everything
  else.
\<close>

definition example_upstream :: upstream where
  "example_upstream campgroundId month_param =
     (if campgroundId = ''232369'' \<and> month_param = ''2025-08-01T00:00:00.000Z'' then
        Body (Some
          [(''A1'', \<lparr>site = Some ''A1'',
                     availabilities = Some [''2025-08-30T00:00:00Z'' \<mapsto> ''Available'',
                                            ''2025-08-31T00:00:00Z'' \<mapsto> ''Available - Tent'']\<rparr>),
           (''A2'', \<lparr>site = Some ''A2'',
                     availabilities = Some [''2025-08-30T00:00:00Z'' \<mapsto> ''Reserved'',
                                            ''2025-08-31T00:00:00Z'' \<mapsto> ''Open'']\<rparr>)])
      else if campgroundId = ''232369'' \<and> month_param = ''2025-09-01T00:00:00.000Z'' then
        Body (Some
          [(''A1'', \<lparr>site = Some ''A1'',
                     availabilities = Some [''2025-09-01T00:00:00Z'' \<mapsto> ''Available'',
                                            ''2025-09-02T00:00:00Z'' \<mapsto> ''Available'']\<rparr>),
           (''A3'', \<lparr>site = None,
                     availabilities = Some [''2025-09-01T00:00:00Z'' \<mapsto> ''Not Available'']\<rparr>)])
      else Raised ''503 Service Unavailable'')"

section \<open>The calendar\<close>

text \<open>
  The ordinal of a date and the date of an ordinal are inverse to each other, and the
  ordinal grows with the date.
\<close>

lemma DI_values: "DI400Y = 146097" "DI100Y = 36524" "DI4Y = 1461"
  by (simp_all add: DI400Y_def DI100Y_def DI4Y_def days_before_year_def)

lemma mod_zero_range:
  fixes x k :: int
  assumes "0 < x" "x \<le> k"
  shows "(x mod k = 0) = (x = k)"
proof (cases "x = k")
  case True
  then show ?thesis by simp
next
  case False
  with assms have "x mod k = x" by simp
  with assms False show ?thesis by simp
qed

lemma dby_decomp:
  assumes "0 \<le> b" "b \<le> 3" "0 \<le> c" "c \<le> 24" "0 \<le> e" "e \<le> 3"
  shows "days_before_year (400 * a + 100 * b + 4 * c + e + 1) = 146097 * a + 36524 * b + 1461 * c + 365 * e"
proof -
  let ?y = "400 * a + 100 * b + 4 * c + e"
  have d4: "?y div 4 = 100 * a + 25 * b + c"
    using assms by (intro int_div_pos_eq[where r = e]) simp_all
  have d100: "?y div 100 = 4 * a + b"
    using assms by (intro int_div_pos_eq[where r = "4 * c + e"]) simp_all
  have d400: "?y div 400 = a"
    using assms by (intro int_div_pos_eq[where r = "100 * b + 4 * c + e"]) simp_all
  show ?thesis
    unfolding days_before_year_def Let_def using d4 d100 d400 by simp
qed

lemma leap_decomp:
  assumes "0 \<le> b" "b \<le> 3" "0 \<le> c" "c \<le> 24" "0 \<le> e" "e \<le> 3"
  shows "is_leap (400 * a + 100 * b + 4 * c + e + 1) = (e = 3 \<and> (c \<noteq> 24 \<or> b = 3))"
proof -
  let ?y = "400 * a + 100 * b + 4 * c + e + 1"
  have m4: "?y mod 4 = (e + 1) mod 4"
  proof -
    have "?y = (e + 1) + (100 * a + 25 * b + c) * 4" by simp
    then show ?thesis by (simp only: mod_mult_self1)
  qed
  have m100: "?y mod 100 = (4 * c + e + 1) mod 100"
  proof -
    have "?y = (4 * c + e + 1) + (4 * a + b) * 100" by simp
    then show ?thesis by (simp only: mod_mult_self1)
  qed
  have m400: "?y mod 400 = (100 * b + 4 * c + e + 1) mod 400"
  proof -
    have "?y = (100 * b + 4 * c + e + 1) + a * 400" by simp
    then show ?thesis by (simp only: mod_mult_self1)
  qed
  have e4: "((e + 1) mod 4 = 0) = (e = 3)"
    using assms mod_zero_range[of "e + 1" 4] by simp
  have aux: "(4 * c + e = 99) = (c = 24 \<and> e = 3)"
    using assms by presburger
  have e100: "((4 * c + e + 1) mod 100 = 0) = (c = 24 \<and> e = 3)"
    using assms mod_zero_range[of "4 * c + e + 1" 100] aux by simp
  have "(100 * b + 4 * c + e = 399) = (b = 3 \<and> 4 * c + e = 99)"
    using assms by linarith
  then have e400: "((100 * b + 4 * c + e + 1) mod 400 = 0) = (b = 3 \<and> c = 24 \<and> e = 3)"
    using assms mod_zero_range[of "100 * b + 4 * c + e + 1" 400] aux by (simp add: add.assoc)
  show ?thesis
    unfolding is_leap_def m4 m100 m400 e4 e100 e400 by auto
qed

lemma twelve_cases:
  fixes m :: int
  assumes "1 \<le> m" "m \<le> 12"
  shows "m = 1 \<or> m = 2 \<or> m = 3 \<or> m = 4 \<or> m = 5 \<or> m = 6 \<or> m = 7 \<or> m = 8 \<or> m = 9 \<or> m = 10 \<or> m = 11 \<or> m = 12"
  using assms by arith

lemma month_estimate:
  fixes r :: int
  assumes r: "0 \<le> r" "r < 365"
    and m0: "m0 = (r + 50) div 32"
    and p0: "p0 = DAYS_BEFORE_MONTH ! nat m0 + (if m0 > 2 \<and> L then 1 else 0)"
    and res: "(m, p) = (if p0 > r then (m0 - 1, p0 - (DAYS_IN_MONTH ! nat (m0 - 1) + (if m0 - 1 = 2 \<and> L then 1 else 0))) else (m0, p0))"
  shows "1 \<le> m \<and> m \<le> 12 \<and> p = DAYS_BEFORE_MONTH ! nat m + (if m > 2 \<and> L then 1 else 0)
         \<and> p \<le> r \<and> r - p < (if m = 2 \<and> L then 29 else DAYS_IN_MONTH ! nat m)"
proof -
  have b: "32 * m0 \<le> r + 50" "r + 50 < 32 * m0 + 32"
    unfolding m0 by arith+
  with r have "1 \<le> m0" "m0 \<le> 12" by arith+
  then consider "m0 = 1" | "m0 = 2" | "m0 = 3" | "m0 = 4" | "m0 = 5" | "m0 = 6" | "m0 = 7"
    | "m0 = 8" | "m0 = 9" | "m0 = 10" | "m0 = 11" | "m0 = 12"
    using twelve_cases by blast
  then show ?thesis
  proof cases
    case 1 with b r p0 res show ?thesis
      by (cases L) (auto simp: DAYS_BEFORE_MONTH_def DAYS_IN_MONTH_def split: if_splits)
  next
    case 2 with b r p0 res show ?thesis
      by (cases L) (auto simp: DAYS_BEFORE_MONTH_def DAYS_IN_MONTH_def split: if_splits)
  next
    case 3 with b r p0 res show ?thesis
      by (cases L) (auto simp: DAYS_BEFORE_MONTH_def DAYS_IN_MONTH_def split: if_splits)
  next
    case 4 with b r p0 res show ?thesis
      by (cases L) (auto simp: DAYS_BEFORE_MONTH_def DAYS_IN_MONTH_def split: if_splits)
  next
    case 5 with b r p0 res show ?thesis
      by (cases L) (auto simp: DAYS_BEFORE_MONTH_def DAYS_IN_MONTH_def split: if_splits)
  next
    case 6 with b r p0 res show ?thesis
      by (cases L) (auto simp: DAYS_BEFORE_MONTH_def DAYS_IN_MONTH_def split: if_splits)
  next
    case 7 with b r p0 res show ?thesis
      by (cases L) (auto simp: DAYS_BEFORE_MONTH_def DAYS_IN_MONTH_def split: if_splits)
  next
    case 8 with b r p0 res show ?thesis
      by (cases L) (auto simp: DAYS_BEFORE_MONTH_def DAYS_IN_MONTH_def split: if_splits)
  next
    case 9 with b r p0 res show ?thesis
      by (cases L) (auto simp: DAYS_BEFORE_MONTH_def DAYS_IN_MONTH_def split: if_splits)
  next
    case 10 with b r p0 res show ?thesis
      by (cases L) (auto simp: DAYS_BEFORE_MONTH_def DAYS_IN_MONTH_def split: if_splits)
  next
    case 11 with b r p0 res show ?thesis
      by (cases L) (auto simp: DAYS_BEFORE_MONTH_def DAYS_IN_MONTH_def split: if_splits)
  next
    case 12 with b r p0 res show ?thesis
      by (cases L) (auto simp: DAYS_BEFORE_MONTH_def DAYS_IN_MONTH_def split: if_splits)
  qed
qed

lemma dbm_dec: "days_before_month y 12 + 31 = (if is_leap y then 366 else 365)"
  by (simp add: days_before_month_def DAYS_BEFORE_MONTH_def)

lemma dim_dec: "days_in_month y 12 = 31"
  by (simp add: days_in_month_def DAYS_IN_MONTH_def)

lemma ord2ymd_correct:
  assumes "ord2ymd n = (y, m, d)"
  shows "1 \<le> m \<and> m \<le> 12 \<and> 1 \<le> d \<and> d \<le> days_in_month y m \<and> ymd2ord y m d = n"
proof -
  define a where "a = (n - 1) div 146097"
  define r1 where "r1 = (n - 1) mod 146097"
  define b where "b = r1 div 36524"
  define r2 where "r2 = r1 mod 36524"
  define c where "c = r2 div 1461"
  define r3 where "r3 = r2 mod 1461"
  define e where "e = r3 div 365"
  define r4 where "r4 = r3 mod 365"
  define L where "L = (e = 3 \<and> (c \<noteq> 24 \<or> b = 3))"
  define m0 where "m0 = (r4 + 50) div 32"
  define p0 where "p0 = DAYS_BEFORE_MONTH ! nat m0 + (if m0 > 2 \<and> L then 1 else 0)"
  define mp where "mp = (if p0 > r4 then (m0 - 1, p0 - (DAYS_IN_MONTH ! nat (m0 - 1) + (if m0 - 1 = 2 \<and> L then 1 else 0))) else (m0, p0))"
  have res0: "(y, m, d) =
     (if e = 4 \<or> b = 4 then (a * 400 + 1 + (b * 100 + c * 4 + e) - 1, 12, 31)
        else if p0 > r4
             then (a * 400 + 1 + (b * 100 + c * 4 + e), m0 - 1, r4 - (p0 - (DAYS_IN_MONTH ! nat (m0 - 1) + (if m0 - 1 = 2 \<and> L then 1 else 0))) + 1)
             else (a * 400 + 1 + (b * 100 + c * 4 + e), m0, r4 - p0 + 1))"
    using assms unfolding ord2ymd_def DI_values Let_def
    unfolding a_def[symmetric] r1_def[symmetric]
    unfolding b_def[symmetric] r2_def[symmetric]
    unfolding c_def[symmetric] r3_def[symmetric]
    unfolding e_def[symmetric] r4_def[symmetric]
    unfolding L_def[symmetric] m0_def[symmetric]
    unfolding p0_def[symmetric]
    by (rule sym)
  have res: "(y, m, d) =
     (if e = 4 \<or> b = 4 then (400 * a + 100 * b + 4 * c + e, 12, 31)
        else (400 * a + 100 * b + 4 * c + e + 1, fst mp, r4 - snd mp + 1))"
    unfolding res0 mp_def by (simp add: if_distrib[of fst] if_distrib[of snd])
  have n: "n - 1 = 146097 * a + r1" and r1: "0 \<le> r1" "r1 < 146097"
    by (simp_all add: a_def r1_def)
  have r1': "r1 = 36524 * b + r2" and r2: "0 \<le> r2" "r2 < 36524"
    by (simp_all add: b_def r2_def)
  have r2': "r2 = 1461 * c + r3" and r3: "0 \<le> r3" "r3 < 1461"
    by (simp_all add: c_def r3_def)
  have r3': "r3 = 365 * e + r4" and r4: "0 \<le> r4" "r4 < 365"
    by (simp_all add: e_def r4_def)
  have b: "0 \<le> b" "b \<le> 4" using r1 r1' r2 by linarith+
  have c: "0 \<le> c" "c \<le> 24" using r2 r2' r3 by linarith+
  have e: "0 \<le> e" "e \<le> 4" using r3 r3' r4 by linarith+
  show ?thesis
  proof (cases "b = 4")
    case True
    with r1 r1' r2 have r20: "r2 = 0" by linarith
    with r2' r3 c have c0: "c = 0" "r3 = 0" by linarith+
    with r3' r4 e have e0: "e = 0" "r4 = 0" by linarith+
    from res True c0 e0 have ymd: "y = 400 * a + 100 * 3 + 4 * 24 + 3 + 1" "m = 12" "d = 31" by simp_all
    have dby: "days_before_year y = 146097 * a + 36524 * 3 + 1461 * 24 + 365 * 3"
      unfolding ymd by (rule dby_decomp) simp_all
    have lp: "is_leap y" unfolding ymd by (subst leap_decomp) simp_all
    have nn: "n = 146097 * a + 146097" using n r1' True r20 by simp
    have "ymd2ord y 12 31 = n"
      unfolding ymd2ord_def add.assoc dbm_dec dby nn using lp by simp
    then show ?thesis
      using ymd(2,3) dim_dec[of y] by simp
  next
    case b4: False
    with b have b3: "b \<le> 3" by simp
    show ?thesis
    proof (cases "e = 4")
      case True
      with r3 r3' r4 have r40: "r4 = 0" by linarith
      from res True have ymd: "y = 400 * a + 100 * b + 4 * c + 3 + 1" "m = 12" "d = 31" by simp_all
      have dby: "days_before_year y = 146097 * a + 36524 * b + 1461 * c + 365 * 3"
        unfolding ymd using b b3 c by (intro dby_decomp) simp_all
      have nn: "n = 146097 * a + 36524 * b + 1461 * c + 1461"
        using n r1' r2' r3' True r40 by simp
      have "c \<noteq> 24 \<or> b = 3"
      proof (rule ccontr)
        assume "\<not> (c \<noteq> 24 \<or> b = 3)"
        then have "c = 24" "b \<noteq> 3" by simp_all
        with r2' r3' True r40 have "r2 = 36524" by simp
        with r2 show False by simp
      qed
      then have lp: "is_leap y" unfolding ymd using b b3 c by (subst leap_decomp) simp_all
      have "ymd2ord y 12 31 = n"
        unfolding ymd2ord_def add.assoc dbm_dec dby nn using lp by simp
      then show ?thesis
        using ymd(2,3) dim_dec[of y] by simp
    next
      case e4: False
      with e have e3: "e \<le> 3" by simp
      have yy: "y = 400 * a + 100 * b + 4 * c + e + 1" and mm: "m = fst mp" and dd: "d = r4 - snd mp + 1"
        using res b4 e4 by simp_all
      have mp: "(m, snd mp) = (if p0 > r4 then (m0 - 1, p0 - (DAYS_IN_MONTH ! nat (m0 - 1) + (if m0 - 1 = 2 \<and> L then 1 else 0))) else (m0, p0))"
        unfolding mm mp_def by (simp split: if_splits)
      note est = month_estimate[OF r4 m0_def p0_def mp]
      have leap: "is_leap y = L"
        unfolding yy L_def using b b3 c e e3 by (intro leap_decomp) simp_all
      have dby: "days_before_year y = 146097 * a + 36524 * b + 1461 * c + 365 * e"
        unfolding yy using b b3 c e e3 by (intro dby_decomp) simp_all
      have nn: "n = 146097 * a + 36524 * b + 1461 * c + 365 * e + r4 + 1"
        using n r1' r2' r3' by simp
      from est show ?thesis
        unfolding ymd2ord_def days_before_month_def days_in_month_def leap dby nn dd
        by simp
    qed
  qed
qed

lemma div_step:
  fixes y k :: int
  assumes "0 < k"
  shows "y div k = (y - 1) div k + (if y mod k = 0 then 1 else 0)"
proof (cases "y mod k = 0")
  case True
  have "y = k * (y div k) + y mod k" by simp
  with True have "y - 1 = k * (y div k - 1) + (k - 1)" by (simp add: algebra_simps)
  then have "(y - 1) div k = y div k - 1"
    using assms by (intro int_div_pos_eq[where r = "k - 1"]) simp_all
  with True show ?thesis by simp
next
  case False
  have "0 \<le> y mod k" "y mod k < k" using assms by simp_all
  with False have "0 \<le> y mod k - 1" "y mod k - 1 < k" by linarith+
  moreover have "y - 1 = k * (y div k) + (y mod k - 1)" by simp
  ultimately have "(y - 1) div k = y div k"
    by (intro int_div_pos_eq[where r = "y mod k - 1"]) simp_all
  with False show ?thesis by simp
qed

lemma dby_succ: "days_before_year (y + 1) = days_before_year y + (if is_leap y then 366 else 365)"
proof -
  define q4 where "q4 = (y - 1) div 4"
  define q100 where "q100 = (y - 1) div 100"
  define q400 where "q400 = (y - 1) div 400"
  define c4 :: int where "c4 = (if y mod 4 = 0 then 1 else 0)"
  define c100 :: int where "c100 = (if y mod 100 = 0 then 1 else 0)"
  define c400 :: int where "c400 = (if y mod 400 = 0 then 1 else 0)"
  have a: "y div 4 = q4 + c4" unfolding q4_def c4_def by (rule div_step) simp
  have b: "y div 100 = q100 + c100" unfolding q100_def c100_def by (rule div_step) simp
  have c: "y div 400 = q400 + c400" unfolding q400_def c400_def by (rule div_step) simp
  have "y mod 100 mod 4 = y mod 4" by (rule mod_mod_cancel) simp
  then have d: "c100 = 1 \<Longrightarrow> c4 = 1"
    unfolding c100_def c4_def by (simp split: if_splits)
  have "y mod 400 mod 100 = y mod 100" by (rule mod_mod_cancel) simp
  then have e: "c400 = 1 \<Longrightarrow> c100 = 1"
    unfolding c400_def c100_def by (simp split: if_splits)
  have vals: "c4 = 0 \<or> c4 = 1" "c100 = 0 \<or> c100 = 1" "c400 = 0 \<or> c400 = 1"
    unfolding c4_def c100_def c400_def by simp_all
  have leap: "is_leap y = (c4 = 1 \<and> (c100 \<noteq> 1 \<or> c400 = 1))"
    unfolding is_leap_def c4_def c100_def c400_def by simp
  have lhs: "days_before_year (y + 1) = y * 365 + (q4 + c4) - (q100 + c100) + (q400 + c400)"
    unfolding days_before_year_def Let_def add_diff_cancel_right' a b c ..
  have rhs: "days_before_year y = (y - 1) * 365 + q4 - q100 + q400"
    unfolding days_before_year_def Let_def q4_def q100_def q400_def ..
  have "c4 - c100 + c400 = (if is_leap y then 1 else 0)"
    unfolding leap using vals d e by (elim disjE) simp_all
  then have "c4 - c100 + c400 + 365 = (if is_leap y then 366 else 365)"
    by (cases "is_leap y") simp_all
  then show ?thesis
    unfolding lhs rhs by (simp only: left_diff_distrib mult_1)
qed

lemma dby_mono_aux: "0 \<le> k \<Longrightarrow> days_before_year y + 365 * k \<le> days_before_year (y + k)"
proof (induction k rule: int_ge_induct)
  case base
  then show ?case by simp
next
  case (step i)
  have "days_before_year (y + (i + 1)) = days_before_year (y + i + 1)" by (simp add: add.assoc)
  also have "\<dots> \<ge> days_before_year (y + i) + 365" unfolding dby_succ by simp
  finally show ?case using step by (simp add: algebra_simps)
qed

lemma dby_mono: "y \<le> y' \<Longrightarrow> days_before_year y \<le> days_before_year y'"
  using dby_mono_aux[of "y' - y" y] by simp

lemma dby_strict: "y < y' \<Longrightarrow> days_before_year (y + 1) \<le> days_before_year y'"
  using dby_mono[of "y + 1" y'] by simp

lemma dbm_values:
  "days_before_month y 1 = 0"
  "days_before_month y 2 = 31"
  "days_before_month y 3 = (if is_leap y then 60 else 59)"
  "days_before_month y 4 = (if is_leap y then 91 else 90)"
  "days_before_month y 5 = (if is_leap y then 121 else 120)"
  "days_before_month y 6 = (if is_leap y then 152 else 151)"
  "days_before_month y 7 = (if is_leap y then 182 else 181)"
  "days_before_month y 8 = (if is_leap y then 213 else 212)"
  "days_before_month y 9 = (if is_leap y then 244 else 243)"
  "days_before_month y 10 = (if is_leap y then 274 else 273)"
  "days_before_month y 11 = (if is_leap y then 305 else 304)"
  "days_before_month y 12 = (if is_leap y then 335 else 334)"
  by (simp_all add: days_before_month_def DAYS_BEFORE_MONTH_def)

lemma dim_values:
  "days_in_month y 1 = 31"
  "days_in_month y 2 = (if is_leap y then 29 else 28)"
  "days_in_month y 3 = 31"
  "days_in_month y 4 = 30"
  "days_in_month y 5 = 31"
  "days_in_month y 6 = 30"
  "days_in_month y 7 = 31"
  "days_in_month y 8 = 31"
  "days_in_month y 9 = 30"
  "days_in_month y 10 = 31"
  "days_in_month y 11 = 30"
  "days_in_month y 12 = 31"
  by (simp_all add: days_in_month_def DAYS_IN_MONTH_def)

lemma dbm_next:
  assumes "1 \<le> m" "m \<le> 11"
  shows "days_before_month y (m + 1) = days_before_month y m + days_in_month y m"
proof -
  from assms have "m = 1 \<or> m = 2 \<or> m = 3 \<or> m = 4 \<or> m = 5 \<or> m = 6 \<or> m = 7 \<or> m = 8 \<or> m = 9 \<or> m = 10 \<or> m = 11"
    by arith
  then show ?thesis
    by (elim disjE) (simp_all add: dbm_values dim_values)
qed

lemma dim_pos:
  assumes "1 \<le> m" "m \<le> 12"
  shows "28 \<le> days_in_month y m"
  using twelve_cases[OF assms] by (elim disjE) (simp_all add: dim_values)

lemma dbm_mono_aux:
  "0 \<le> k \<Longrightarrow> 1 \<le> m \<Longrightarrow> m + k \<le> 12 \<Longrightarrow> days_before_month y m \<le> days_before_month y (m + k)"
proof (induction k rule: int_ge_induct)
  case base
  then show ?case by simp
next
  case (step i)
  then have "days_before_month y (m + i + 1) = days_before_month y (m + i) + days_in_month y (m + i)"
    by (intro dbm_next) simp_all
  moreover have "28 \<le> days_in_month y (m + i)" using step by (intro dim_pos) simp_all
  ultimately show ?case using step by (simp add: add.assoc)
qed

lemma dbm_strict:
  assumes "1 \<le> m" "m < m'" "m' \<le> 12"
  shows "days_before_month y m + days_in_month y m \<le> days_before_month y m'"
proof -
  have "days_before_month y (m + 1) \<le> days_before_month y (m + 1 + (m' - m - 1))"
    using assms by (intro dbm_mono_aux) simp_all
  moreover have "days_before_month y (m + 1) = days_before_month y m + days_in_month y m"
    using assms by (intro dbm_next) simp_all
  ultimately show ?thesis by simp
qed

lemma dbm_nonneg:
  assumes "1 \<le> m" "m \<le> 12"
  shows "0 \<le> days_before_month y m"
  using twelve_cases[OF assms] by (elim disjE) (simp_all add: dbm_values)

lemma day_of_year_le:
  assumes "valid_md y m d"
  shows "days_before_month y m + d \<le> (if is_leap y then 366 else 365)"
proof (cases "m = 12")
  case True
  with assms show ?thesis by (simp add: valid_md_def dbm_values dim_values)
next
  case False
  with assms have "days_before_month y m + days_in_month y m \<le> days_before_month y 12"
    by (intro dbm_strict) (simp_all add: valid_md_def)
  with assms show ?thesis by (simp add: valid_md_def dbm_values split: if_splits)
qed

lemma lex3_less:
  fixes y m d :: int
  shows "((y, m, d) < (y', m', d')) = (y < y' \<or> (y = y' \<and> (m < m' \<or> (m = m' \<and> d < d'))))"
  unfolding less_prod_def less_eq_prod_def fst_conv snd_conv by linarith

lemma ymd2ord_strict_mono:
  assumes "valid_md y m d" "valid_md y' m' d'" "(y, m, d) < (y', m', d')"
  shows "ymd2ord y m d < ymd2ord y' m' d'"
proof -
  from assms(3) consider "y < y'" | "y = y'" "m < m'" | "y = y'" "m = m'" "d < d'"
    unfolding lex3_less by blast
  then show ?thesis
  proof cases
    case 1
    have "ymd2ord y m d \<le> days_before_year (y + 1)"
      unfolding ymd2ord_def dby_succ using day_of_year_le[OF assms(1)] by (simp split: if_splits)
    also have "\<dots> \<le> days_before_year y'" using 1 by (rule dby_strict)
    also have "\<dots> < ymd2ord y' m' d'"
      unfolding ymd2ord_def using assms(2) dbm_nonneg[of m' y'] by (simp add: valid_md_def)
    finally show ?thesis .
  next
    case 2
    with assms have "days_before_month y m + days_in_month y m \<le> days_before_month y m'"
      by (intro dbm_strict) (simp_all add: valid_md_def)
    with 2 assms show ?thesis by (simp add: ymd2ord_def valid_md_def)
  next
    case 3
    then show ?thesis by (simp add: ymd2ord_def)
  qed
qed

lemma ymd2ord_inj:
  assumes "valid_md y m d" "valid_md y' m' d'" "ymd2ord y m d = ymd2ord y' m' d'"
  shows "(y, m, d) = (y', m', d')"
proof (rule ccontr)
  assume "(y, m, d) \<noteq> (y', m', d')"
  then have "(y, m, d) < (y', m', d') \<or> (y', m', d') < (y, m, d)" by (rule linorder_neqE) simp_all
  then show False
    using ymd2ord_strict_mono[OF assms(1,2)] ymd2ord_strict_mono[OF assms(2,1)] assms(3) by auto
qed

lemma ord2ymd_ymd2ord:
  assumes "valid_md y m d"
  shows "ord2ymd (ymd2ord y m d) = (y, m, d)"
proof -
  obtain y' m' d' where r: "ord2ymd (ymd2ord y m d) = (y', m', d')" by (cases "ord2ymd (ymd2ord y m d)") auto
  from ord2ymd_correct[OF r] have "valid_md y' m' d'" "ymd2ord y' m' d' = ymd2ord y m d"
    by (simp_all add: valid_md_def)
  with assms have "(y', m', d') = (y, m, d)" by (intro ymd2ord_inj) simp_all
  with r show ?thesis by simp
qed

lemma ymd2ord_mono_iff:
  assumes "valid_md y m d" "valid_md y' m' d'"
  shows "(ymd2ord y m d \<le> ymd2ord y' m' d') = ((y, m, d) \<le> (y', m', d'))"
proof (cases "(y, m, d) \<le> (y', m', d')")
  case True
  then have "(y, m, d) < (y', m', d') \<or> (y, m, d) = (y', m', d')"
    unfolding le_less .
  then have "ymd2ord y m d \<le> ymd2ord y' m' d'"
  proof
    assume "(y, m, d) < (y', m', d')"
    from ymd2ord_strict_mono[OF assms this] show ?thesis by simp
  next
    assume "(y, m, d) = (y', m', d')"
    then show ?thesis by simp
  qed
  with True show ?thesis by blast
next
  case False
  then have lt: "(y', m', d') < (y, m, d)" by (simp only: not_le)
  from ymd2ord_strict_mono[OF assms(2,1) lt] have "\<not> ymd2ord y m d \<le> ymd2ord y' m' d'" by simp
  with False show ?thesis by blast
qed

lemma ord_bounds:
  assumes "valid_md y m d"
  shows "days_before_year y < ymd2ord y m d" "ymd2ord y m d \<le> days_before_year (y + 1)"
proof -
  show "days_before_year y < ymd2ord y m d"
    unfolding ymd2ord_def using assms dbm_nonneg[of m y] by (simp add: valid_md_def)
  show "ymd2ord y m d \<le> days_before_year (y + 1)"
    unfolding ymd2ord_def dby_succ using day_of_year_le[OF assms] by (simp split: if_splits)
qed

lemma dby_1: "days_before_year 1 = 0"
  by (simp add: days_before_year_def)

lemma dby_10000: "days_before_year 10000 = 3652059"
  by (simp add: days_before_year_def)

lemma ymd2ord_range:
  assumes "valid_md y m d" "1 \<le> y" "y \<le> 9999"
  shows "1 \<le> ymd2ord y m d" "ymd2ord y m d \<le> 3652059"
proof -
  have "days_before_year 1 \<le> days_before_year y" using assms by (intro dby_mono) simp
  with ord_bounds(1)[OF assms(1)] show "1 \<le> ymd2ord y m d" by (simp add: dby_1)
  have "days_before_year (y + 1) \<le> days_before_year 10000" using assms by (intro dby_mono) simp
  with ord_bounds(2)[OF assms(1)] show "ymd2ord y m d \<le> 3652059" by (simp add: dby_10000)
qed

lemma ord2ymd_year_range:
  assumes "ord2ymd n = (y, m, d)" "1 \<le> n" "n \<le> 3652059"
  shows "1 \<le> y \<and> y \<le> 9999"
proof -
  from ord2ymd_correct[OF assms(1)] have v: "valid_md y m d" and n: "ymd2ord y m d = n"
    by (simp_all add: valid_md_def)
  have "1 \<le> y"
  proof (rule ccontr)
    assume "\<not> 1 \<le> y"
    then have "days_before_year (y + 1) \<le> days_before_year 1" by (intro dby_mono) simp
    with ord_bounds(2)[OF v] n assms(2) show False by (simp add: dby_1)
  qed
  moreover have "y \<le> 9999"
  proof (rule ccontr)
    assume "\<not> y \<le> 9999"
    then have "days_before_year 10000 \<le> days_before_year y" by (intro dby_mono) simp
    with ord_bounds(1)[OF v] n assms(3) show False by (simp add: dby_10000)
  qed
  ultimately show ?thesis by simp
qed

section \<open>Reading and printing dates\<close>


lemma ten_cases:
  fixes d :: int
  assumes "0 \<le> d" "d \<le> 9"
  shows "d = 0 \<or> d = 1 \<or> d = 2 \<or> d = 3 \<or> d = 4 \<or> d = 5 \<or> d = 6 \<or> d = 7 \<or> d = 8 \<or> d = 9"
  using assms by arith

lemma digit_val_digit_char:
  assumes "0 \<le> d" "d \<le> 9"
  shows "digit_val (digit_char d) = Some d"
  using ten_cases[OF assms] by (elim disjE) (simp_all add: digit_val_def digit_char_def)

lemma digit_char_not_sep:
  assumes "0 \<le> d" "d \<le> 9"
  shows "digit_char d \<noteq> CHR ''T''" "digit_char d \<noteq> CHR ''-''"
  using ten_cases[OF assms] by (elim disjE; simp add: digit_char_def)+




lemma pad2_month:
  assumes "1 \<le> m" "m \<le> 12"
  shows "strptime_month (pad2 m @ CHR ''-'' # r) = Some (m, CHR ''-'' # r)"
  using twelve_cases[OF assms]
  by (elim disjE) (simp_all add: pad2_def digit_char_def strptime_month_def digit_val_def)

lemma digit_val_small:
  "digit_val (digit_char 0) = Some 0" "digit_val (digit_char 1) = Some 1"
  "digit_val (digit_char 2) = Some 2" "digit_val (digit_char 3) = Some 3"
  by (simp_all add: digit_val_def digit_char_def)

lemma pad2_day:
  assumes "1 \<le> d" "d \<le> 31"
  shows "strptime_day (pad2 d) = Some (d, [])"
proof -
  define q where "q = d div 10"
  define r where "r = d mod 10"
  have d: "d = 10 * q + r" and r: "0 \<le> r" "r \<le> 9"
    by (simp_all add: q_def r_def)
  with assms have q: "0 \<le> q" "q \<le> 3" by linarith+
  have dq: "digit_val (digit_char q) = Some q" using q by (intro digit_val_digit_char) simp_all
  have dr: "digit_val (digit_char r) = Some r" using r by (intro digit_val_digit_char) simp_all
  from q have "q = 0 \<or> q = 1 \<or> q = 2 \<or> q = 3" by linarith
  then show ?thesis
    unfolding pad2_def q_def[symmetric] r_def[symmetric] strptime_day_def
    using assms r d by (elim disjE) (simp_all add: digit_val_small dr)
qed

lemma digits4:
  fixes y :: int
  assumes "0 \<le> y" "y \<le> 9999"
  shows "1000 * (y div 1000) + 100 * (y div 100 mod 10) + 10 * (y div 10 mod 10) + y mod 10 = y"
    and "0 \<le> y div 1000 \<and> y div 1000 \<le> 9"
proof -
  define t where "t = y div 10"
  define h where "h = t div 10"
  define k where "k = h div 10"
  have y: "y = 10 * t + y mod 10" by (simp add: t_def)
  have t: "t = 10 * h + t mod 10" by (simp add: h_def)
  have h: "h = 10 * k + h mod 10" by (simp add: k_def)
  have h': "y div 100 = h"
    unfolding h_def t_def by (simp add: zdiv_zmult2_eq[symmetric])
  have k': "y div 1000 = k"
    unfolding k_def h'[symmetric] by (simp add: zdiv_zmult2_eq[symmetric])
  show "1000 * (y div 1000) + 100 * (y div 100 mod 10) + 10 * (y div 10 mod 10) + y mod 10 = y"
    unfolding k' h' t_def[symmetric] using y t h by linarith
  have "0 \<le> y mod 10" "0 \<le> t mod 10" "0 \<le> h mod 10" by simp_all
  with y t h assms show "0 \<le> y div 1000 \<and> y div 1000 \<le> 9"
    unfolding k' by linarith
qed

lemma strptime_strftime:
  assumes "valid_datetime dt"
  shows "strptime (strftime_ymd dt) = Inr dt"
proof -
  define y where "y = year dt"
  define m where "m = month dt"
  define d where "d = day dt"
  from assms have y: "1 \<le> y" "y \<le> 9999" and m: "1 \<le> m" "m \<le> 12" and d: "1 \<le> d" "d \<le> days_in_month y m"
    unfolding valid_datetime_def valid_md_def MINYEAR_def MAXYEAR_def y_def m_def d_def by simp_all
  from twelve_cases[OF m] d have d31: "d \<le> 31"
    by (elim disjE) (simp_all add: dim_values split: if_splits)
  from y have y0: "0 \<le> y" by simp
  note dg = digits4[OF y0 y(2)]
  have v1: "digit_val (digit_char (y div 1000)) = Some (y div 1000)"
    using dg(2) by (intro digit_val_digit_char) simp_all
  have v2: "digit_val (digit_char (y div 100 mod 10)) = Some (y div 100 mod 10)"
    by (intro digit_val_digit_char) simp_all
  have v3: "digit_val (digit_char (y div 10 mod 10)) = Some (y div 10 mod 10)"
    by (intro digit_val_digit_char) simp_all
  have v4: "digit_val (digit_char (y mod 10)) = Some (y mod 10)"
    by (intro digit_val_digit_char) simp_all
  have mo: "strptime_month (pad2 m @ CHR ''-'' # pad2 d) = Some (m, CHR ''-'' # pad2 d)"
    using m by (rule pad2_month)
  have da: "strptime_day (pad2 d) = Some (d, [])"
    using d(1) d31 by (rule pad2_day)
  have dt: "dt = \<lparr>year = y, month = m, day = d\<rparr>"
    unfolding y_def m_def d_def by simp
  have "strptime (pad4 y @ ''-'' @ pad2 m @ ''-'' @ pad2 d) = Inr \<lparr>year = y, month = m, day = d\<rparr>"
    unfolding strptime_def pad4_def
    using y d(2) by (simp add: v1 v2 v3 v4 mo da dg(1) MINYEAR_def)
  then show ?thesis
    unfolding strftime_ymd_def dt by simp
qed

lemma takeWhile_pad2:
  assumes "0 \<le> n" "n \<le> 99"
  shows "takeWhile (\<lambda>c. c \<noteq> CHR ''T'') (pad2 n @ r) = pad2 n @ takeWhile (\<lambda>c. c \<noteq> CHR ''T'') r"
proof -
  have "0 \<le> n div 10 \<and> n div 10 \<le> 9" using assms by linarith
  then have "digit_char (n div 10) \<noteq> CHR ''T''" by (intro digit_char_not_sep) simp_all
  moreover have "digit_char (n mod 10) \<noteq> CHR ''T''" by (intro digit_char_not_sep) simp_all
  ultimately show ?thesis by (simp add: pad2_def)
qed

lemma split_T_0_night:
  assumes "valid_datetime dt"
  shows "split_T_0 (strftime_night dt) = strftime_ymd dt"
proof -
  define y where "y = year dt"
  define m where "m = month dt"
  define d where "d = day dt"
  from assms have y: "1 \<le> y" "y \<le> 9999" and m: "1 \<le> m" "m \<le> 12" and d: "1 \<le> d" "d \<le> days_in_month y m"
    unfolding valid_datetime_def valid_md_def MINYEAR_def MAXYEAR_def y_def m_def d_def by simp_all
  from twelve_cases[OF m] d have d31: "d \<le> 31"
    by (elim disjE) (simp_all add: dim_values split: if_splits)
  from y have y0: "0 \<le> y" by simp
  note dg = digits4[OF y0 y(2)]
  have c1: "digit_char (y div 1000) \<noteq> CHR ''T''" using dg(2) by (intro digit_char_not_sep) simp_all
  have c2: "digit_char (y div 100 mod 10) \<noteq> CHR ''T''" by (intro digit_char_not_sep) simp_all
  have c3: "digit_char (y div 10 mod 10) \<noteq> CHR ''T''" by (intro digit_char_not_sep) simp_all
  have c4: "digit_char (y mod 10) \<noteq> CHR ''T''" by (intro digit_char_not_sep) simp_all
  have pm: "takeWhile (\<lambda>c. c \<noteq> CHR ''T'') (pad2 m @ r) = pad2 m @ takeWhile (\<lambda>c. c \<noteq> CHR ''T'') r" for r
    using m by (intro takeWhile_pad2) simp_all
  have pd: "takeWhile (\<lambda>c. c \<noteq> CHR ''T'') (pad2 d @ r) = pad2 d @ takeWhile (\<lambda>c. c \<noteq> CHR ''T'') r" for r
    using d(1) d31 by (intro takeWhile_pad2) simp_all
  have "takeWhile (\<lambda>c. c \<noteq> CHR ''T'') (pad4 y @ CHR ''-'' # (pad2 m @ CHR ''-'' # (pad2 d @ ''T00:00:00Z'')))
        = pad4 y @ CHR ''-'' # (pad2 m @ CHR ''-'' # pad2 d)"
    unfolding pad4_def by (simp add: c1 c2 c3 c4 pm pd)
  then show ?thesis
    unfolding split_T_0_def strftime_night_def strftime_ymd_def
      y_def[symmetric] m_def[symmetric] d_def[symmetric] by simp
qed

lemma strptime_night:
  assumes "valid_datetime dt"
  shows "strptime (split_T_0 (strftime_night dt)) = Inr dt"
  unfolding split_T_0_night[OF assms] by (rule strptime_strftime[OF assms])

lemma strftime_night_inj:
  assumes "valid_datetime a" "valid_datetime b" "strftime_night a = strftime_night b"
  shows "a = b"
proof -
  have "Inr a = strptime (split_T_0 (strftime_night a))" using assms(1) by (simp add: strptime_night)
  also have "\<dots> = strptime (split_T_0 (strftime_night b))" using assms(3) by simp
  also have "\<dots> = Inr b" using assms(2) by (simp add: strptime_night)
  finally show ?thesis by simp
qed

section \<open>The night keys of a range\<close>

text \<open>
  The expansion of a range of dates never leaves the calendar, so it raises nothing, and
  its keys are those of the dates from the start to the end, day by day.
\<close>

lemma toordinal_range:
  assumes "valid_datetime dt"
  shows "1 \<le> toordinal dt" "toordinal dt \<le> MAXORDINAL"
  using assms ymd2ord_range[of "year dt" "month dt" "day dt"]
  unfolding valid_datetime_def toordinal_def MINYEAR_def MAXYEAR_def MAXORDINAL_def by simp_all

lemma fromordinal_valid:
  assumes "1 \<le> n" "n \<le> MAXORDINAL"
  shows "valid_datetime (fromordinal n)" "toordinal (fromordinal n) = n"
proof -
  obtain y m d where r: "ord2ymd n = (y, m, d)" by (cases "ord2ymd n") auto
  note c = ord2ymd_correct[OF r]
  from ord2ymd_year_range[OF r] assms have "1 \<le> y \<and> y \<le> 9999" by (simp add: MAXORDINAL_def)
  with c show "valid_datetime (fromordinal n)"
    unfolding valid_datetime_def valid_md_def fromordinal_def r MINYEAR_def MAXYEAR_def by simp
  from c show "toordinal (fromordinal n) = n"
    unfolding toordinal_def fromordinal_def r by simp
qed

lemma fromordinal_toordinal:
  assumes "valid_datetime dt"
  shows "fromordinal (toordinal dt) = dt"
proof -
  from assms have "valid_md (year dt) (month dt) (day dt)" by (simp add: valid_datetime_def)
  from ord2ymd_ymd2ord[OF this] show ?thesis
    unfolding fromordinal_def toordinal_def by simp
qed

lemma toordinal_le_iff:
  assumes "valid_datetime a" "valid_datetime b"
  shows "(toordinal a \<le> toordinal b) = (date_key a \<le> date_key b)"
  using assms unfolding toordinal_def date_key_def valid_datetime_def
  by (intro ymd2ord_mono_iff) simp_all

lemma toordinal_less_iff:
  assumes "valid_datetime a" "valid_datetime b"
  shows "(toordinal a < toordinal b) = (date_key a < date_key b)"
proof -
  have "(toordinal a < toordinal b) = (\<not> toordinal b \<le> toordinal a)" by linarith
  also have "\<dots> = (\<not> date_key b \<le> date_key a)" by (simp only: toordinal_le_iff[OF assms(2,1)])
  also have "\<dots> = (date_key a < date_key b)" by (simp only: not_le)
  finally show ?thesis .
qed

lemma collect_map:
  assumes "\<forall>x\<in>set xs. f x = Inr (g x)"
  shows "collect (map f xs) = Inr (map g xs)"
  using assms by (induction xs) simp_all

lemma add_days_ok:
  assumes "valid_datetime s" "valid_datetime e" "0 \<le> n" "n \<le> sub_days e s"
  shows "add_days s n = Inr (fromordinal (toordinal s + n))"
  using assms toordinal_range[of s] toordinal_range[of e]
  unfolding add_days_def sub_days_def Let_def by simp

lemma daterange_eq:
  assumes "valid_datetime s" "valid_datetime e"
  shows "daterange s e =
     Inr (map (\<lambda>n. strftime_night (fromordinal (toordinal s + int n))) [0..<nat (sub_days e s + 1)])"
  unfolding daterange_def
proof (rule collect_map, rule ballI)
  fix n assume "n \<in> set [0..<nat (sub_days e s + 1)]"
  then have "0 \<le> int n" "int n \<le> sub_days e s" by auto
  from add_days_ok[OF assms this]
  show "(case add_days s (int n) of Inl e \<Rightarrow> Inl e | Inr dt \<Rightarrow> Inr (strftime_night dt))
        = Inr (strftime_night (fromordinal (toordinal s + int n)))" by simp
qed

lemma range_dates:
  assumes "valid_datetime s" "valid_datetime e"
  defines "dates \<equiv> map (\<lambda>n. fromordinal (toordinal s + int n)) [0..<nat (sub_days e s + 1)]"
  shows "daterange s e = Inr (map strftime_night dates)"
    and "length dates = nat (sub_days e s + 1)"
    and "\<forall>i<length dates. valid_datetime (dates ! i) \<and> toordinal (dates ! i) = toordinal s + int i"
proof -
  show "daterange s e = Inr (map strftime_night dates)"
    unfolding daterange_eq[OF assms(1,2)] dates_def by (simp add: comp_def)
  show len: "length dates = nat (sub_days e s + 1)"
    unfolding dates_def by simp
  show "\<forall>i<length dates. valid_datetime (dates ! i) \<and> toordinal (dates ! i) = toordinal s + int i"
  proof (intro allI impI)
    fix i assume "i < length dates"
    then have i: "int i \<le> sub_days e s" unfolding len by linarith
    have di: "dates ! i = fromordinal (toordinal s + int i)"
      using \<open>i < length dates\<close> unfolding dates_def by simp
    have lo: "1 \<le> toordinal s + int i" using toordinal_range(1)[OF assms(1)] by linarith
    have hi: "toordinal s + int i \<le> MAXORDINAL"
      using toordinal_range(2)[OF assms(2)] i unfolding sub_days_def by linarith
    from fromordinal_valid[OF lo hi] show "valid_datetime (dates ! i) \<and> toordinal (dates ! i) = toordinal s + int i"
      unfolding di by simp
  qed
qed

text \<open>
  Claim C4. For dates \<open>start \<le> end_date\<close> the expansion succeeds and lists the night
  keys of \<open>(end_date - start).days + 1\<close> dates: the first is \<open>start\<close>, the last is
  \<open>end_date\<close>, the \<open>i\<close>-th lies \<open>i\<close> days after \<open>start\<close>, so each date is exactly
  one day after the one before and the dates ascend strictly; no key occurs twice.
\<close>

theorem daterange_nights:
  assumes "valid_datetime start" "valid_datetime end_date" "date_key start \<le> date_key end_date"
  shows "\<exists>dates. daterange start end_date = Inr (map strftime_night dates)
           \<and> int (length dates) = sub_days end_date start + 1
           \<and> hd dates = start \<and> last dates = end_date
           \<and> (\<forall>i<length dates. valid_datetime (dates ! i) \<and> sub_days (dates ! i) start = int i)
           \<and> (\<forall>i. Suc i < length dates \<longrightarrow>
                  sub_days (dates ! Suc i) (dates ! i) = 1 \<and> date_key (dates ! i) < date_key (dates ! Suc i))
           \<and> distinct (map strftime_night dates)"
proof -
  define dates where "dates = map (\<lambda>n. fromordinal (toordinal start + int n)) [0..<nat (sub_days end_date start + 1)]"
  note rd = range_dates[OF assms(1,2), folded dates_def]
  from assms have le: "toordinal start \<le> toordinal end_date" by (simp add: toordinal_le_iff)
  then have len: "int (length dates) = sub_days end_date start + 1"
    unfolding rd(2) sub_days_def by simp
  from le have ne: "dates \<noteq> []" using len unfolding sub_days_def by auto
  have ith: "valid_datetime (dates ! i)" "toordinal (dates ! i) = toordinal start + int i" if "i < length dates" for i
    using rd(3) that by simp_all
  have "hd dates = dates ! 0" using ne by (simp add: hd_conv_nth)
  also have "\<dots> = fromordinal (toordinal (dates ! 0))"
    using ne ith(1)[of 0] by (simp add: fromordinal_toordinal)
  also have "\<dots> = start" using ne ith(2)[of 0] assms(1) by (simp add: fromordinal_toordinal)
  finally have first: "hd dates = start" .
  have l: "length dates - 1 < length dates" using ne by simp
  have "int (length dates - 1) = sub_days end_date start" using len ne by (simp add: of_nat_diff Suc_leI)
  then have "toordinal (dates ! (length dates - 1)) = toordinal end_date"
    using ith(2)[OF l] unfolding sub_days_def by simp
  then have "fromordinal (toordinal (dates ! (length dates - 1))) = fromordinal (toordinal end_date)" by simp
  then have "dates ! (length dates - 1) = end_date"
    using ith(1)[OF l] assms(2) by (simp add: fromordinal_toordinal)
  then have final: "last dates = end_date" using ne by (simp add: last_conv_nth)
  have step: "sub_days (dates ! Suc i) (dates ! i) = 1 \<and> date_key (dates ! i) < date_key (dates ! Suc i)"
    if "Suc i < length dates" for i
  proof -
    from that have i: "i < length dates" by simp
    have "toordinal (dates ! Suc i) = toordinal (dates ! i) + 1"
      using ith(2)[OF that] ith(2)[OF i] by simp
    then show ?thesis
      using toordinal_less_iff[OF ith(1)[OF i] ith(1)[OF that]] by (simp add: sub_days_def)
  qed
  have "distinct dates"
  proof (rule ccontr)
    assume "\<not> distinct dates"
    then obtain i j where ij: "i < j" "j < length dates" "dates ! i = dates ! j"
      using distinct_conv_nth[of dates] by (metis nat_neq_iff)
    then have "toordinal (dates ! i) = toordinal (dates ! j)" by simp
    with ij ith(2)[of i] ith(2)[of j] show False by simp
  qed
  moreover have "inj_on strftime_night (set dates)"
  proof (rule inj_onI)
    fix a b assume "a \<in> set dates" "b \<in> set dates" "strftime_night a = strftime_night b"
    moreover from this have "valid_datetime a" "valid_datetime b"
      using ith(1) by (auto simp: in_set_conv_nth)
    ultimately show "a = b" by (intro strftime_night_inj)
  qed
  ultimately have "distinct (map strftime_night dates)" by (simp add: distinct_map)
  with rd(1) len first final step ith show ?thesis
    unfolding sub_days_def by (intro exI[of _ dates]) simp
qed

theorem daterange_nights_witness:
  "valid_datetime \<lparr>year = 2025, month = 8, day = 30\<rparr> \<and> valid_datetime \<lparr>year = 2025, month = 9, day = 2\<rparr>
   \<and> date_key \<lparr>year = 2025, month = 8, day = 30\<rparr> \<le> date_key \<lparr>year = 2025, month = 9, day = 2\<rparr>
   \<and> (\<exists>dates. daterange \<lparr>year = 2025, month = 8, day = 30\<rparr> \<lparr>year = 2025, month = 9, day = 2\<rparr>
                   = Inr (map strftime_night dates)
         \<and> int (length dates) = sub_days \<lparr>year = 2025, month = 9, day = 2\<rparr> \<lparr>year = 2025, month = 8, day = 30\<rparr> + 1
         \<and> hd dates = \<lparr>year = 2025, month = 8, day = 30\<rparr> \<and> last dates = \<lparr>year = 2025, month = 9, day = 2\<rparr>
         \<and> (\<forall>i<length dates. valid_datetime (dates ! i) \<and> sub_days (dates ! i) \<lparr>year = 2025, month = 8, day = 30\<rparr> = int i)
         \<and> (\<forall>i. Suc i < length dates \<longrightarrow>
                  sub_days (dates ! Suc i) (dates ! i) = 1 \<and> date_key (dates ! i) < date_key (dates ! Suc i))
         \<and> distinct (map strftime_night dates))
   \<and> daterange \<lparr>year = 2025, month = 8, day = 30\<rparr> \<lparr>year = 2025, month = 9, day = 2\<rparr>
       = Inr [''2025-08-30T00:00:00Z'', ''2025-08-31T00:00:00Z'', ''2025-09-01T00:00:00Z'', ''2025-09-02T00:00:00Z'']"
proof -
  have v1: "valid_datetime \<lparr>year = 2025, month = 8, day = 30\<rparr>" by code_simp
  have v2: "valid_datetime \<lparr>year = 2025, month = 9, day = 2\<rparr>" by code_simp
  have le: "date_key \<lparr>year = 2025, month = 8, day = 30\<rparr> \<le> date_key \<lparr>year = 2025, month = 9, day = 2\<rparr>"
    by (simp add: date_key_def less_eq_prod_def)
  have ev: "daterange \<lparr>year = 2025, month = 8, day = 30\<rparr> \<lparr>year = 2025, month = 9, day = 2\<rparr>
       = Inr [''2025-08-30T00:00:00Z'', ''2025-08-31T00:00:00Z'', ''2025-09-01T00:00:00Z'', ''2025-09-02T00:00:00Z'']"
    by code_simp
  from daterange_nights[OF v1 v2 le] v1 v2 le ev show ?thesis by blast
qed

section \<open>Merging the months\<close>

text \<open>
  What the loop over the months leaves in \<open>all_avail_data\<close>, in \<open>results\<close> and in the
  log of upstream calls. For months that have the shape of the upstream contract the merge
  raises nothing, and the nights of a site are the nights of its months, added in order.
\<close>

lemma map_of_update: "map_of (AList.update k v al) = (map_of al)(k \<mapsto> v)"
  by (rule update_conv')




lemma fetch_month_merged:
  "fst (fetch_month api cid m (acc, st)) = fst (merge_sites (month_sites api cid m) acc)"
  unfolding fetch_month_def month_sites_def Let_def
  by (simp split: response.splits option.splits prod.splits)

lemma fetch_month_state:
  "requests (snd (fetch_month api cid m (acc, st))) = requests st @ [(cid, strftime_month m)]"
  "all_sites (snd (fetch_month api cid m (acc, st))) = all_sites st"
  "k \<noteq> cid \<Longrightarrow> map_of (results (snd (fetch_month api cid m (acc, st)))) k = map_of (results st) k"
  unfolding fetch_month_def Let_def
  by (simp_all add: map_of_update split: response.splits option.splits prod.splits)

lemma fetch_months_Nil: "fetch_months api cid [] acc = acc"
  by (simp add: fetch_months_def)

lemma fetch_months_Cons:
  "fetch_months api cid (m # ms) acc = fetch_months api cid ms (fetch_month api cid m acc)"
  by (simp add: fetch_months_def)

lemma fetch_months_merged:
  "fst (fetch_months api cid ms (acc, st)) =
     fold (\<lambda>m a. fst (merge_sites (month_sites api cid m) a)) ms acc"
proof (induction ms arbitrary: acc st)
  case Nil
  then show ?case by (simp add: fetch_months_Nil)
next
  case (Cons m ms)
  obtain acc1 st1 where s: "fetch_month api cid m (acc, st) = (acc1, st1)"
    by (cases "fetch_month api cid m (acc, st)")
  with fetch_month_merged[of api cid m acc st] have "acc1 = fst (merge_sites (month_sites api cid m) acc)"
    by simp
  with Cons.IH[of acc1 st1] s show ?case
    by (simp add: fetch_months_Cons)
qed

lemma fetch_months_requests:
  "requests (snd (fetch_months api cid ms (acc, st))) = requests st @ map (\<lambda>m. (cid, strftime_month m)) ms"
proof (induction ms arbitrary: acc st)
  case Nil
  show ?case by (simp add: fetch_months_Nil)
next
  case (Cons m ms)
  obtain acc1 st1 where s: "fetch_month api cid m (acc, st) = (acc1, st1)"
    by (cases "fetch_month api cid m (acc, st)")
  from fetch_month_state(1)[of api cid m acc st] s
  have "requests st1 = requests st @ [(cid, strftime_month m)]" by simp
  then show ?case
    unfolding fetch_months_Cons s Cons.IH by simp
qed

lemma fetch_months_results:
  assumes "k \<noteq> cid"
  shows "map_of (results (snd (fetch_months api cid ms (acc, st)))) k = map_of (results st) k"
proof (induction ms arbitrary: acc st)
  case Nil
  show ?case by (simp add: fetch_months_Nil)
next
  case (Cons m ms)
  obtain acc1 st1 where s: "fetch_month api cid m (acc, st) = (acc1, st1)"
    by (cases "fetch_month api cid m (acc, st)")
  from fetch_month_state(3)[OF assms, of api m acc st] s
  have "map_of (results st1) k = map_of (results st) k" by simp
  then show ?case
    unfolding fetch_months_Cons s Cons.IH by simp
qed

















section \<open>Classifying the sites and answering the names\<close>

text \<open>
  The two lists of a campground are filters of its merged sites. The turn of one name
  changes \<open>results\<close> at one key only, the identifier of the campground or the name itself,
  so the entry under a key is the one written by the last name answered under that key.
\<close>

lemma classify_fold:
  "fold (classify_site tds) merged (F, P, S) =
     (F @ map (label_of tds) (filter (\<lambda>item. available_nights tds (snd item) = length tds) merged),
      P @ map (label_of tds) (filter (\<lambda>item. available_nights tds (snd item) \<noteq> length tds
                                             \<and> 0 < available_nights tds (snd item)) merged),
      fold (\<lambda>item. AList.update (fst item) (site_name_of (fst item) (snd item))) merged S)"
proof (induction merged arbitrary: F P S)
  case Nil
  show ?case by simp
next
  case (Cons item merged)
  obtain sid sd where item: "item = (sid, sd)" by (cases item)
  show ?case
    unfolding fold_simps comp_def item
    by (simp add: classify_site_def Let_def Cons.IH label_of_def)
qed

lemma classify_sites_lists:
  "classify_sites tds merged S =
     (map (label_of tds) (filter (\<lambda>item. available_nights tds (snd item) = length tds) merged),
      map (label_of tds) (filter (\<lambda>item. available_nights tds (snd item) \<noteq> length tds
                                         \<and> 0 < available_nights tds (snd item)) merged),
      fold (\<lambda>item. AList.update (fst item) (site_name_of (fst item) (snd item))) merged S)"
  unfolding classify_sites_def classify_fold by simp




lemma months_of_nonempty:
  assumes "months_of tds = Inr months" "months \<noteq> []"
  shows "tds \<noteq> []"
  using assms by (auto simp: months_of_def)

lemma fetch_months_fst_initial:
  "fst (fetch_months api cid ms (acc, st)) = fst (fetch_months api cid ms (acc, initial_state))"
  unfolding fetch_months_merged ..

lemma process_name_effect:
  assumes "months_of tds = Inr months"
  shows "\<exists>st'. process_name api tds name st = Inr st'
           \<and> map_of (results st') = (map_of (results st))(key_of name \<mapsto> written_entry api tds months name)
           \<and> requests st' = requests st @ requests_for months name"
proof (cases "resolve name")
  case None
  then show ?thesis
    unfolding process_name_def key_of_def written_entry_def requests_for_def
    by (simp add: map_of_update)
next
  case (Some cid)
  obtain merged st1 where f: "fetch_months api cid months ([], st) = (merged, st1)"
    by (cases "fetch_months api cid months ([], st)")
  have m: "merged = fst (fetch_months api cid months ([], initial_state))"
    using fetch_months_fst_initial[of api cid months "[]" st] f by simp
  have r: "requests st1 = requests st @ map (\<lambda>m. (cid, strftime_month m)) months"
    using fetch_months_requests[of api cid months "[]" st] f by simp
  have k: "map_of (results st1) k = map_of (results st) k" if "k \<noteq> cid" for k
    using fetch_months_results[OF that, of api months "[]" st] f by simp
  have "(map_of (results st1))(cid \<mapsto> e) = (map_of (results st))(cid \<mapsto> e)" for e
    by (rule ext) (simp add: k)
  then show ?thesis
    unfolding process_name_def key_of_def written_entry_def requests_for_def Some assms
    by (simp add: f classify_sites_lists map_of_update r m Let_def)
qed


















lemma key_of_resolved: "resolve name = Some cid \<Longrightarrow> key_of name = cid"
  by (simp add: key_of_def)





lemma startswith_prefix: "startswith s p = prefix p s"
proof
  assume "startswith s p"
  then have "s = p @ drop (length p) s"
    unfolding startswith_def by (metis append_take_drop_id)
  then show "prefix p s" by (rule prefixI)
next
  assume "prefix p s"
  then obtain t where "s = p @ t" by (rule prefixE)
  then show "startswith s p" by (simp add: startswith_def)
qed

lemma counts_available_prefix:
  "counts_available status = (prefix ''Available'' status \<or> prefix ''Open'' status)"
  by (simp add: counts_available_def startswith_prefix)

lemma missing_not_available: "\<not> counts_available ''Missing''"
  by (simp add: counts_available_def startswith_def)

lemma merged_nonempty:
  assumes "months_of tds = Inr months" "fst (fetch_months api cid months ([], st)) \<noteq> []"
  shows "0 < length tds"
proof -
  from assms(2) have "months \<noteq> []" by (auto simp: fetch_months_Nil)
  from months_of_nonempty[OF assms(1) this] show ?thesis by simp
qed

lemma process_name_resolved:
  assumes "resolve name = Some cid" "months_of tds = Inr months"
  shows "\<exists>st'. process_name api tds name st = Inr st'
      \<and> map_of (results st') cid =
          Some (Success_entry (campground_name_of cid) tds
                 (map (label_of tds)
                    (filter (\<lambda>item. available_nights tds (snd item) = length tds)
                       (fst (fetch_months api cid months ([], st)))))
                 (map (label_of tds)
                    (filter (\<lambda>item. available_nights tds (snd item) \<noteq> length tds
                                    \<and> 0 < available_nights tds (snd item))
                       (fst (fetch_months api cid months ([], st))))))"
proof -
  from process_name_effect[OF assms(2), of api name st] obtain st' where
    p: "process_name api tds name st = Inr st'"
    and r: "map_of (results st') = (map_of (results st))(key_of name \<mapsto> written_entry api tds months name)"
    by blast
  have "map_of (results st') cid = Some (written_entry api tds months name)"
    unfolding r key_of_resolved[OF assms(1)] by simp
  with p show ?thesis
    unfolding written_entry_def assms(1) Let_def
      fetch_months_fst_initial[of api cid months "[]" st] by simp
qed


lemma all_missing_none:
  assumes "\<forall>night\<in>set tds. status_of sd night = ''Missing''"
  shows "available_nights tds sd = 0"
  unfolding available_nights_def using assms missing_not_available by simp

text \<open>
  Claim C3. The status of a requested night is the one the merged record holds for that
  key and \<open>"Missing"\<close> when the record has none. A night counts as available exactly
  when its status has the prefix \<open>"Available"\<close> or the prefix \<open>"Open"\<close> (characters are
  compared as they are, and a longer status with such a prefix counts); the number of
  available nights counts these. For a requested name that resolves, a merged site whose
  requested nights are all \<open>"Missing"\<close> has no available night and is in neither list of
  the stored entry: both lists are those built from the other sites alone.
\<close>

theorem status_and_prefix_rule:
  "(\<forall>av status. availabilities site_data = Some av \<and> av night = Some status
       \<longrightarrow> status_of site_data night = status)
   \<and> (availabilities site_data = None \<or> (\<exists>av. availabilities site_data = Some av \<and> av night = None)
       \<longrightarrow> status_of site_data night = ''Missing'')
   \<and> counts_available status = (prefix ''Available'' status \<or> prefix ''Open'' status)
   \<and> counts_available status
       = ((\<exists>rest. status = ''Available'' @ rest) \<or> (\<exists>rest. status = ''Open'' @ rest))
   \<and> available_nights target_dates site_data
       = length (filter (\<lambda>night. prefix ''Available'' (status_of site_data night)
                                \<or> prefix ''Open'' (status_of site_data night)) target_dates)
   \<and> ((\<forall>night\<in>set target_dates. status_of site_data night = ''Missing'')
       \<longrightarrow> available_nights target_dates site_data = 0)
   \<and> (resolve name = Some cid \<and> months_of target_dates = Inr months
       \<longrightarrow> (\<exists>st' fully partially.
             process_name api target_dates name st = Inr st'
           \<and> map_of (results st') cid
               = Some (Success_entry (campground_name_of cid) target_dates fully partially)
           \<and> fully = map (label_of target_dates)
                       (filter (\<lambda>item. available_nights target_dates (snd item) = length target_dates)
                          (filter (\<lambda>item. \<not> (\<forall>night\<in>set target_dates. status_of (snd item) night = ''Missing''))
                             (fst (fetch_months api cid months ([], st)))))
           \<and> partially = map (label_of target_dates)
                       (filter (\<lambda>item. available_nights target_dates (snd item) \<noteq> length target_dates
                                       \<and> 0 < available_nights target_dates (snd item))
                          (filter (\<lambda>item. \<not> (\<forall>night\<in>set target_dates. status_of (snd item) night = ''Missing''))
                             (fst (fetch_months api cid months ([], st)))))))"
proof (intro conjI impI allI)
  fix av status assume "availabilities site_data = Some av \<and> av night = Some status"
  then show "status_of site_data night = status" by (simp add: status_of_def)
next
  assume "availabilities site_data = None \<or> (\<exists>av. availabilities site_data = Some av \<and> av night = None)"
  then show "status_of site_data night = ''Missing''" by (auto simp: status_of_def)
next
  show "counts_available status = (prefix ''Available'' status \<or> prefix ''Open'' status)"
    by (rule counts_available_prefix)
next
  show "counts_available status
       = ((\<exists>rest. status = ''Available'' @ rest) \<or> (\<exists>rest. status = ''Open'' @ rest))"
    unfolding counts_available_prefix prefix_def ..
next
  show "available_nights target_dates site_data
       = length (filter (\<lambda>night. prefix ''Available'' (status_of site_data night)
                                \<or> prefix ''Open'' (status_of site_data night)) target_dates)"
    unfolding available_nights_def counts_available_prefix ..
next
  assume "\<forall>night\<in>set target_dates. status_of site_data night = ''Missing''"
  then show "available_nights target_dates site_data = 0" by (rule all_missing_none)
next
  assume a: "resolve name = Some cid \<and> months_of target_dates = Inr months"
  define merged where "merged = fst (fetch_months api cid months ([], st))"
  from a have r: "resolve name = Some cid" and m: "months_of target_dates = Inr months" by simp_all
  have pos: "0 < length target_dates" if "item \<in> set merged" for item
  proof -
    from that have "merged \<noteq> []" by auto
    then show ?thesis
      unfolding merged_def using merged_nonempty[OF m] by blast
  qed
  have f1: "filter (\<lambda>item. available_nights target_dates (snd item) = length target_dates)
              (filter (\<lambda>item. \<not> (\<forall>night\<in>set target_dates. status_of (snd item) night = ''Missing'')) merged)
      = filter (\<lambda>item. available_nights target_dates (snd item) = length target_dates) merged"
    unfolding filter_filter
  proof (rule filter_cong)
    fix item assume "item \<in> set merged"
    from pos[OF this] have p: "0 < length target_dates" .
    show "(\<not> (\<forall>night\<in>set target_dates. status_of (snd item) night = ''Missing'')
            \<and> available_nights target_dates (snd item) = length target_dates)
        = (available_nights target_dates (snd item) = length target_dates)"
    proof (cases "\<forall>night\<in>set target_dates. status_of (snd item) night = ''Missing''")
      case True
      from all_missing_none[OF True] p show ?thesis by simp
    next
      case False
      then show ?thesis by simp
    qed
  qed simp
  have f2: "filter (\<lambda>item. available_nights target_dates (snd item) \<noteq> length target_dates
                                       \<and> 0 < available_nights target_dates (snd item))
              (filter (\<lambda>item. \<not> (\<forall>night\<in>set target_dates. status_of (snd item) night = ''Missing'')) merged)
      = filter (\<lambda>item. available_nights target_dates (snd item) \<noteq> length target_dates
                                       \<and> 0 < available_nights target_dates (snd item)) merged"
    unfolding filter_filter
  proof (rule filter_cong)
    fix item
    show "(\<not> (\<forall>night\<in>set target_dates. status_of (snd item) night = ''Missing'')
            \<and> available_nights target_dates (snd item) \<noteq> length target_dates
            \<and> 0 < available_nights target_dates (snd item))
        = (available_nights target_dates (snd item) \<noteq> length target_dates
            \<and> 0 < available_nights target_dates (snd item))"
    proof (cases "\<forall>night\<in>set target_dates. status_of (snd item) night = ''Missing''")
      case True
      from all_missing_none[OF True] show ?thesis by simp
    next
      case False
      then show ?thesis by simp
    qed
  qed simp
  from process_name_resolved[OF r m, of api st]
  show "\<exists>st' fully partially.
             process_name api target_dates name st = Inr st'
           \<and> map_of (results st') cid
               = Some (Success_entry (campground_name_of cid) target_dates fully partially)
           \<and> fully = map (label_of target_dates)
                       (filter (\<lambda>item. available_nights target_dates (snd item) = length target_dates)
                          (filter (\<lambda>item. \<not> (\<forall>night\<in>set target_dates. status_of (snd item) night = ''Missing''))
                             (fst (fetch_months api cid months ([], st)))))
           \<and> partially = map (label_of target_dates)
                       (filter (\<lambda>item. available_nights target_dates (snd item) \<noteq> length target_dates
                                       \<and> 0 < available_nights target_dates (snd item))
                          (filter (\<lambda>item. \<not> (\<forall>night\<in>set target_dates. status_of (snd item) night = ''Missing''))
                             (fst (fetch_months api cid months ([], st)))))"
    unfolding merged_def[symmetric] f1 f2 by blast
qed

section \<open>The aggregate\<close>

















section \<open>The claims on an example\<close>






lemma example_resolve:
  "resolve ''Camp Dick'' = Some ''232369''"
  "resolve ''glacier basin'' = Some ''232462''"
  "resolve ''Nowhere'' = None"
  "resolve ''all_sites'' = None"
  "resolve ''232369'' = None"
  by code_simp+

lemma example_names:
  "campground_name_of ''232369'' = ''Camp Dick''"
  by code_simp



lemma example_anchors:
  "months_of [''2025-08-30T00:00:00Z'', ''2025-08-31T00:00:00Z'', ''2025-09-01T00:00:00Z'', ''2025-09-02T00:00:00Z'']
     = Inr [\<lparr>year = 2025, month = 8, day = 1\<rparr>, \<lparr>year = 2025, month = 9, day = 1\<rparr>]"
  by code_simp


theorem status_and_prefix_rule_witness:
  "counts_available ''Available - Tent''
   \<and> counts_available ''Open''
   \<and> \<not> counts_available ''available''
   \<and> \<not> counts_available ''Reserved''
   \<and> status_of \<lparr>site = None, availabilities = Some [''2025-09-01T00:00:00Z'' \<mapsto> ''Not Available'']\<rparr>
        ''2025-09-01T00:00:00Z'' = ''Not Available''
   \<and> status_of \<lparr>site = None, availabilities = Some [''2025-09-01T00:00:00Z'' \<mapsto> ''Not Available'']\<rparr>
        ''2025-08-30T00:00:00Z'' = ''Missing''
   \<and> available_nights [''2025-08-30T00:00:00Z'', ''2025-08-31T00:00:00Z'']
        \<lparr>site = None, availabilities = Some [''2025-09-01T00:00:00Z'' \<mapsto> ''Not Available'']\<rparr> = 0
   \<and> resolve ''Camp Dick'' = Some ''232369''
   \<and> months_of [''2025-08-30T00:00:00Z'', ''2025-08-31T00:00:00Z'', ''2025-09-01T00:00:00Z'', ''2025-09-02T00:00:00Z'']
       = Inr [\<lparr>year = 2025, month = 8, day = 1\<rparr>, \<lparr>year = 2025, month = 9, day = 1\<rparr>]
   \<and> (\<exists>st'. process_name example_upstream
               [''2025-08-30T00:00:00Z'', ''2025-08-31T00:00:00Z'', ''2025-09-01T00:00:00Z'', ''2025-09-02T00:00:00Z'']
               ''Camp Dick'' initial_state = Inr st'
          \<and> map_of (results st') ''232369''
              = Some (Success_entry ''Camp Dick''
                        [''2025-08-30T00:00:00Z'', ''2025-08-31T00:00:00Z'', ''2025-09-01T00:00:00Z'', ''2025-09-02T00:00:00Z'']
                        [''A1 (4 nights)''] [''A2 (1 nights)'']))"
proof -
  let ?tds = "[''2025-08-30T00:00:00Z'', ''2025-08-31T00:00:00Z'', ''2025-09-01T00:00:00Z'', ''2025-09-02T00:00:00Z'']"
  let ?months = "[\<lparr>year = 2025, month = 8, day = 1\<rparr>, \<lparr>year = 2025, month = 9, day = 1\<rparr>]"
  let ?merged = "fst (fetch_months example_upstream ''232369'' ?months ([], initial_state))"
  let ?a3 = "\<lparr>site = None, availabilities = Some [''2025-09-01T00:00:00Z'' \<mapsto> ''Not Available'']\<rparr>"
  let ?two = "[''2025-08-30T00:00:00Z'', ''2025-08-31T00:00:00Z'']"
  note rule = status_and_prefix_rule
  have c1: "counts_available ''Available - Tent''"
    using rule[of _ _ "''Available - Tent''"] by simp
  have c2: "counts_available ''Open''"
    using rule[of _ _ "''Open''"] by simp
  have c3: "\<not> counts_available ''available''"
    using rule[of _ _ "''available''"] by simp
  have c4: "\<not> counts_available ''Reserved''"
    using rule[of _ _ "''Reserved''"] by simp
  have s1: "status_of ?a3 ''2025-09-01T00:00:00Z'' = ''Not Available''"
    using rule[of ?a3 "''2025-09-01T00:00:00Z''"] by simp
  have s2: "status_of ?a3 ''2025-08-30T00:00:00Z'' = ''Missing''"
    using rule[of ?a3 "''2025-08-30T00:00:00Z''"] by simp
  have s3: "status_of ?a3 ''2025-08-31T00:00:00Z'' = ''Missing''"
    using rule[of ?a3 "''2025-08-31T00:00:00Z''"] by simp
  have n0: "available_nights ?two ?a3 = 0"
    using rule[of ?a3 _ _ ?two] s2 s3 by simp
  have f: "map (label_of ?tds)
             (filter (\<lambda>item. available_nights ?tds (snd item) = length ?tds)
                (filter (\<lambda>item. \<not> (\<forall>night\<in>set ?tds. status_of (snd item) night = ''Missing'')) ?merged))
           = [''A1 (4 nights)'']"
    by code_simp
  have p: "map (label_of ?tds)
             (filter (\<lambda>item. available_nights ?tds (snd item) \<noteq> length ?tds
                             \<and> 0 < available_nights ?tds (snd item))
                (filter (\<lambda>item. \<not> (\<forall>night\<in>set ?tds. status_of (snd item) night = ''Missing'')) ?merged))
           = [''A2 (1 nights)'']"
    by code_simp
  from rule[of _ _ _ ?tds "''Camp Dick''" "''232369''" ?months example_upstream initial_state]
    example_resolve(1) example_anchors
  have "\<exists>st'. process_name example_upstream ?tds ''Camp Dick'' initial_state = Inr st'
          \<and> map_of (results st') ''232369''
              = Some (Success_entry ''Camp Dick'' ?tds [''A1 (4 nights)''] [''A2 (1 nights)''])"
    unfolding f p example_names by blast
  with c1 c2 c3 c4 s1 s2 n0 example_resolve(1) example_anchors show ?thesis by blast
qed










text \<open>
  Claim C1 against the code. The upstream is down. The month loop does store the error
  entry under the campground identifier, with the month and the cause; but the handler then
  goes on to classify and stores the success payload under the same key, so the aggregate
  for Camp Dick holds a success payload with two empty lists and no error.
\<close>

theorem month_failure_entry_is_overwritten:
  "results (snd (fetch_months upstream_down ''232369'' [\<lparr>year = 2025, month = 8, day = 1\<rparr>] ([], initial_state)))
     = [(''232369'', Error_entry ''Failed to fetch month 2025-08-01T00:00:00.000Z: connection refused'')]
   \<and> get_availability upstream_down [''Camp Dick''] ''2025-08-01'' ''2025-08-01'' =
       Inr \<lparr>results = [(''232369'', Success_entry ''Camp Dick'' [''2025-08-01T00:00:00Z''] [] []),
                       (''all_sites'', Site_index [])],
            all_sites = [],
            requests = [(''232369'', ''2025-08-01T00:00:00.000Z'')]\<rparr>"
  by code_simp

end
